theory Spec2Isabelle
  imports Complex_Main "HOL-Library.Multiset"
begin

section \<open>Data model\<close>

text \<open>
  The C++ struct \<^verbatim>\<open>Order { double price; double qty; }\<close> and the struct
  \<^verbatim>\<open>OrderBook { vector<Order> bids; vector<Order> asks; }\<close>.
  The value of a \<^verbatim>\<open>double\<close> is a real number. The matcher is given twice below:
  with exact operations, and with every operation followed by a rounding function,
  which for the code is the rounding to binary64. Infinities and NaN are outside the
  model.
\<close>

record Order =
  price :: real
  qty :: real

record OrderBook =
  bids :: "Order list"
  asks :: "Order list"

section \<open>Execution matcher\<close>

text \<open>
  The loop of \<^verbatim>\<open>executeBuy\<close> (lines 120-126), with exact operations (the loop with
  rounded operations follows in its own section). The state of the loop is the running
  cost and the remaining quantity; the test \<^verbatim>\<open>qty <= 0\<close> is made after a level has
  been charged, as in the source. The function returns the final cost together with the
  final value of the local variable \<^verbatim>\<open>qty\<close>.
\<close>

fun buy_loop :: "Order list \<Rightarrow> real \<Rightarrow> real \<Rightarrow> real \<times> real" where
  "buy_loop [] q cost = (cost, q)"
| "buy_loop (lv # lvs) q cost =
     (let take = min q (qty lv);
          cost' = cost + take * price lv;
          q' = q - take
      in if q' \<le> 0 then (cost', q') else buy_loop lvs q' cost')"

text \<open>The loop of \<^verbatim>\<open>executeSell\<close> (lines 134-140), transcribed on its own.\<close>

fun sell_loop :: "Order list \<Rightarrow> real \<Rightarrow> real \<Rightarrow> real \<times> real" where
  "sell_loop [] q revenue = (revenue, q)"
| "sell_loop (lv # lvs) q revenue =
     (let take = min q (qty lv);
          revenue' = revenue + take * price lv;
          q' = q - take
      in if q' \<le> 0 then (revenue', q') else sell_loop lvs q' revenue')"

text \<open>
  \<^verbatim>\<open>std::sort\<close> with the comparator \<^verbatim>\<open>a.price < b.price\<close> is modelled by the
  stable insertion sort on the key \<^verbatim>\<open>price\<close>; with \<^verbatim>\<open>a.price > b.price\<close> the key is
  the negated price. \<^verbatim>\<open>std::sort\<close> leaves the relative order of levels with equal
  prices open. When all prices differ there is only one sorted arrangement (lemma
  \<open>sort_key_distinct_unique\<close>); with exact operations the cost does not depend on the
  arrangement when no level has a negative quantity (lemma \<open>buy_loop_sorted_perm\<close>).

  The vector is passed by reference and sorted in place, so the model returns the
  vector after the call next to the returned number.
\<close>

definition executeBuy :: "Order list \<Rightarrow> real \<Rightarrow> Order list \<times> real" where
  "executeBuy asks0 q =
     (let sorted_asks = sort_key price asks0
      in (sorted_asks, fst (buy_loop sorted_asks q 0)))"

definition executeSell :: "Order list \<Rightarrow> real \<Rightarrow> Order list \<times> real" where
  "executeSell bids0 q =
     (let sorted_bids = sort_key (\<lambda>a. - price a) bids0
      in (sorted_bids, fst (sell_loop sorted_bids q 0)))"

text \<open>
  The walk as section 4.4 of the specification words it: stop as soon as the remaining
  quantity is not positive or the sequence is exhausted; otherwise take
  \<open>min remaining quantity\<close> at the level, add \<open>take * price\<close> to the cost and decrement
  the remaining quantity.
\<close>

fun spec_walk :: "Order list \<Rightarrow> real \<Rightarrow> real \<Rightarrow> real" where
  "spec_walk [] remaining cost = cost"
| "spec_walk (lv # lvs) remaining cost =
     (if remaining \<le> 0 then cost
      else let take = min remaining (qty lv)
           in spec_walk lvs (remaining - take) (cost + take * price lv))"


section \<open>Binary64 arithmetic\<close>

text \<open>
  The number of binary digits of a positive integer, and with it the exponent \<open>e\<close> of a
  positive real \<open>x\<close>, for which \<open>2 ^ e \<le> x < 2 ^ (e + 1)\<close>.
\<close>

function bit_length :: "int \<Rightarrow> int" where
  "bit_length n = (if n \<le> 0 then 0 else 1 + bit_length (n div 2))"
  by pat_completeness auto
termination
  by (relation "measure nat") auto

declare bit_length.simps [simp del]

definition binade :: "real \<Rightarrow> int" where
  "binade x =
     (if 1 \<le> x then bit_length \<lfloor>x\<rfloor> - 1
      else - bit_length (\<lceil>1 / x\<rceil> - 1))"

definition pow2 :: "int \<Rightarrow> real" where
  "pow2 e = (if 0 \<le> e then 2 ^ nat e else 1 / 2 ^ nat (- e))"

text \<open>The nearest integer, the even one of the two when the distance is the same.\<close>

definition round_half_even :: "real \<Rightarrow> int" where
  "round_half_even x =
     (let f = \<lfloor>x\<rfloor>; d = x - of_int f
      in if d < 1 / 2 then f else if 1 / 2 < d then f + 1 else if even f then f else f + 1)"

text \<open>
  The result of an arithmetic operation on \<^verbatim>\<open>double\<close> values is the exact result
  rounded to the nearest binary64 number, to the one with the even significand in a tie.
  A binary64 number has a significand of 53 bits, so in the binade of exponent \<open>e\<close> the
  numbers are \<open>2 ^ (e - 52)\<close> apart; below \<open>2 ^ - 1022\<close> the spacing stays
  \<open>2 ^ - 1074\<close>. Overflow to infinity is not modelled.
\<close>

definition round_double :: "real \<Rightarrow> real" where
  "round_double x =
     (if x = 0 then 0
      else let e = max (binade \<bar>x\<bar>) (- 1022);
               u = pow2 (e - 52);
               m = round_half_even (\<bar>x\<bar> / u)
           in sgn x * (of_int m * u))"

section \<open>The matcher with rounded operations\<close>

text \<open>
  The loops of \<^verbatim>\<open>executeBuy\<close> and \<^verbatim>\<open>executeSell\<close> once more, now with the rounding
  \<open>rnd\<close> applied to the product, to the sum and to the difference, as the code rounds
  each operation (no fused multiply-add); \<^verbatim>\<open>std::min\<close> and the comparisons are
  exact. With \<open>rnd = round_double\<close> this is the arithmetic of the code, with the
  identity it is the exact arithmetic of \<open>buy_loop\<close> and \<open>sell_loop\<close>. The third
  component of the state is not in the source: it adds up, without rounding, the
  quantities taken.
\<close>

fun buy_loop_fp ::
  "(real \<Rightarrow> real) \<Rightarrow> Order list \<Rightarrow> real \<Rightarrow> real \<Rightarrow> real \<Rightarrow> real \<times> real \<times> real" where
  "buy_loop_fp rnd [] q cost taken = (cost, q, taken)"
| "buy_loop_fp rnd (lv # lvs) q cost taken =
     (let take = min q (qty lv);
          cost' = rnd (cost + rnd (take * price lv));
          q' = rnd (q - take);
          taken' = taken + take
      in if q' \<le> 0 then (cost', q', taken') else buy_loop_fp rnd lvs q' cost' taken')"

fun sell_loop_fp ::
  "(real \<Rightarrow> real) \<Rightarrow> Order list \<Rightarrow> real \<Rightarrow> real \<Rightarrow> real \<Rightarrow> real \<times> real \<times> real" where
  "sell_loop_fp rnd [] q revenue taken = (revenue, q, taken)"
| "sell_loop_fp rnd (lv # lvs) q revenue taken =
     (let take = min q (qty lv);
          revenue' = rnd (revenue + rnd (take * price lv));
          q' = rnd (q - take);
          taken' = taken + take
      in if q' \<le> 0 then (revenue', q', taken')
         else sell_loop_fp rnd lvs q' revenue' taken')"

definition executeBuy_fp :: "(real \<Rightarrow> real) \<Rightarrow> Order list \<Rightarrow> real \<Rightarrow> Order list \<times> real" where
  "executeBuy_fp rnd asks0 q =
     (let sorted_asks = sort_key price asks0
      in (sorted_asks, fst (buy_loop_fp rnd sorted_asks q 0 0)))"

definition executeSell_fp :: "(real \<Rightarrow> real) \<Rightarrow> Order list \<Rightarrow> real \<Rightarrow> Order list \<times> real" where
  "executeSell_fp rnd bids0 q =
     (let sorted_bids = sort_key (\<lambda>a. - price a) bids0
      in (sorted_bids, fst (sell_loop_fp rnd sorted_bids q 0 0)))"

text \<open>The quantity that a call of \<^verbatim>\<open>executeBuy\<close> takes from the levels, all takes added up.\<close>

definition taken_fp :: "(real \<Rightarrow> real) \<Rightarrow> Order list \<Rightarrow> real \<Rightarrow> real" where
  "taken_fp rnd asks0 q = snd (snd (buy_loop_fp rnd (sort_key price asks0) q 0 0))"

section \<open>Order book aggregation\<close>

text \<open>
  Lines 155-159 of \<^verbatim>\<open>main\<close>: two empty vectors receive the bids and the asks of the
  Coinbase book and then those of the Gemini book, each inserted at the end. The result
  is the pair \<open>(bids, asks)\<close>.
\<close>

definition aggregate :: "OrderBook \<Rightarrow> OrderBook \<Rightarrow> Order list \<times> Order list" where
  "aggregate cb gm = (([] @ bids cb) @ bids gm, ([] @ asks cb) @ asks gm)"

section \<open>Rate limiter\<close>

text \<open>
  The class \<^verbatim>\<open>RateLimiter\<close> holds one atomic \<^verbatim>\<open>long long\<close>, initially 0. Time stamps are
  nanosecond readings of the steady clock; they are modelled as integers, since the
  readings and the stored value are non-negative 64-bit values and their difference
  cannot wrap.
\<close>

record RateLimiter =
  lastCallNs :: int

definition cooldown_ns :: int where
  "cooldown_ns = 2000000000"

text \<open>
  \<^verbatim>\<open>compare_exchange_strong(expected, desired)\<close> on the atomic whose value is \<open>stored\<close>:
  the result is the success flag and the value of the atomic afterwards.
\<close>

definition compare_exchange_strong :: "int \<Rightarrow> int \<Rightarrow> int \<Rightarrow> bool \<times> int" where
  "compare_exchange_strong stored expected desired =
     (if stored = expected then (True, desired) else (False, stored))"

text \<open>
  \<^verbatim>\<open>allow\<close> (lines 28-36) when no other caller runs between its load and its
  compare-and-swap. The argument \<open>now\<close> is the clock reading of lines 29-31.
\<close>

definition allow :: "int \<Rightarrow> RateLimiter \<Rightarrow> bool \<times> RateLimiter" where
  "allow now rl =
     (let last0 = lastCallNs rl
      in if now - last0 < 2000000000 then (False, rl)
         else (case compare_exchange_strong (lastCallNs rl) last0 now of
                 (ok, stored) \<Rightarrow> (ok, rl\<lparr>lastCallNs := stored\<rparr>)))"

subsection \<open>Several callers on one limiter\<close>

text \<open>
  Callers of \<^verbatim>\<open>allow\<close> on the same limiter interleave at its two atomic operations:
  the load of line 33 (with the thread-local test of line 34) and the compare-and-swap
  of line 35. A caller is its clock reading and its position in the function; the
  shared state is the value of \<^verbatim>\<open>lastCallNs\<close>. A schedule is the list of caller indices
  in the order in which they perform their next atomic operation.
\<close>

datatype progress = AtLoad | AtCas int | Returned bool

record caller =
  now_ns :: int
  pc :: progress

type_synonym shared_limiter = "int \<times> caller list"

definition step :: "nat \<Rightarrow> shared_limiter \<Rightarrow> shared_limiter" where
  "step i cfg =
     (case cfg of (stored, cs) \<Rightarrow>
        if length cs \<le> i then cfg
        else (case pc (cs ! i) of
                AtLoad \<Rightarrow>
                  (let last0 = stored
                   in if now_ns (cs ! i) - last0 < 2000000000
                      then (stored, cs[i := (cs ! i)\<lparr>pc := Returned False\<rparr>])
                      else (stored, cs[i := (cs ! i)\<lparr>pc := AtCas last0\<rparr>]))
              | AtCas last0 \<Rightarrow>
                  (case compare_exchange_strong stored last0 (now_ns (cs ! i)) of
                     (ok, stored') \<Rightarrow> (stored', cs[i := (cs ! i)\<lparr>pc := Returned ok\<rparr>]))
              | Returned b \<Rightarrow> cfg))"

definition run :: "nat list \<Rightarrow> shared_limiter \<Rightarrow> shared_limiter" where
  "run schedule cfg = fold step schedule cfg"

definition callers :: "int list \<Rightarrow> caller list" where
  "callers nows = map (\<lambda>t. \<lparr>now_ns = t, pc = AtLoad\<rparr>) nows"

definition granted :: "shared_limiter \<Rightarrow> nat \<Rightarrow> bool" where
  "granted cfg i = (i < length (snd cfg) \<and> pc (snd cfg ! i) = Returned True)"

text \<open>
  The invariant of the interleaved runs: the clock readings never change, every caller
  that was granted has a reading not above the stored value, every caller about to swap
  has passed the cooldown test against the value it loaded, and two granted callers are
  a cooldown apart.
\<close>

definition limiter_inv :: "int list \<Rightarrow> shared_limiter \<Rightarrow> bool" where
  "limiter_inv nows cfg = (case cfg of (stored, cs) \<Rightarrow>
      map now_ns cs = nows
    \<and> (\<forall>i<length cs. pc (cs ! i) = Returned True \<longrightarrow> now_ns (cs ! i) \<le> stored)
    \<and> (\<forall>i<length cs. \<forall>l. pc (cs ! i) = AtCas l \<longrightarrow> cooldown_ns \<le> now_ns (cs ! i) - l)
    \<and> (\<forall>i<length cs. \<forall>j<length cs.
          i \<noteq> j \<and> pc (cs ! i) = Returned True \<and> pc (cs ! j) = Returned True
          \<longrightarrow> cooldown_ns \<le> \<bar>now_ns (cs ! i) - now_ns (cs ! j)\<bar>))"

section \<open>Quote sources\<close>

text \<open>
  The exceptions that the library calls of the program can throw:
  \<^verbatim>\<open>json::parse_error\<close>, \<^verbatim>\<open>json::type_error\<close>, \<^verbatim>\<open>std::invalid_argument\<close> and
  \<^verbatim>\<open>std::out_of_range\<close>. The program has no \<^verbatim>\<open>try\<close> block.
\<close>

datatype error = ParseError | TypeError | InvalidArgument | OutOfRange

text \<open>
  Sequencing of calls that may throw: when the first one throws, the exception is the
  result; otherwise the second one runs on the value.
\<close>

definition and_then :: "error + 'a \<Rightarrow> ('a \<Rightarrow> error + 'b) \<Rightarrow> error + 'b" where
  "and_then r f = (case r of Inl e \<Rightarrow> Inl e | Inr v \<Rightarrow> f v)"

text \<open>
  A value of \<^verbatim>\<open>nlohmann::json\<close>. An object lists its members in the order of the
  underlying \<^verbatim>\<open>std::map\<close>, each key once.
\<close>

datatype json =
    JNull
  | JBool bool
  | JNumber real
  | JString string
  | JArray "json list"
  | JObject "(string \<times> json) list"

text \<open>
  \<^verbatim>\<open>j[key]\<close> on a non-const value: the member of an object, null for a missing member
  or a null value, \<^verbatim>\<open>type_error\<close> for any other value.
\<close>

fun json_at_key :: "json \<Rightarrow> string \<Rightarrow> error + json" where
  "json_at_key (JObject kvs) k = (case map_of kvs k of Some v \<Rightarrow> Inr v | None \<Rightarrow> Inr JNull)"
| "json_at_key JNull k = Inr JNull"
| "json_at_key _ k = Inl TypeError"

text \<open>
  \<^verbatim>\<open>b[idx]\<close> on a non-const value: the element of an array, null past its end or
  for a null value, \<^verbatim>\<open>type_error\<close> for any other value.
\<close>

fun json_at_index :: "json \<Rightarrow> nat \<Rightarrow> error + json" where
  "json_at_index (JArray xs) i = Inr (if i < length xs then xs ! i else JNull)"
| "json_at_index JNull i = Inr JNull"
| "json_at_index _ i = Inl TypeError"

text \<open>
  The values a range-based \<^verbatim>\<open>for\<close> visits: the elements of an array, the member
  values of an object, nothing for null, and the value itself for a primitive value.
\<close>

fun json_items :: "json \<Rightarrow> json list" where
  "json_items (JArray xs) = xs"
| "json_items (JObject kvs) = map snd kvs"
| "json_items JNull = []"
| "json_items v = [v]"

text \<open>\<^verbatim>\<open>get<std::string>()\<close>: the string of a string value, \<^verbatim>\<open>type_error\<close> otherwise.\<close>

fun json_get_string :: "json \<Rightarrow> error + string" where
  "json_get_string (JString s) = Inr s"
| "json_get_string _ = Inl TypeError"

text \<open>
  One level of the Coinbase book (lines 72-73 and 76-77) and of the Gemini book
  (lines 105-106 and 109-110). \<^verbatim>\<open>std::stod\<close> is library code and a parameter of the
  model: it returns the number or the exception it throws. The two initialisers of the
  braced list are evaluated from left to right.
\<close>

definition coinbase_level :: "(string \<Rightarrow> error + real) \<Rightarrow> json \<Rightarrow> error + Order" where
  "coinbase_level stod b =
     and_then (json_at_index b 0) (\<lambda>b0.
     and_then (json_get_string b0) (\<lambda>s0.
     and_then (stod s0) (\<lambda>p.
     and_then (json_at_index b 1) (\<lambda>b1.
     and_then (json_get_string b1) (\<lambda>s1.
     and_then (stod s1) (\<lambda>v.
     Inr \<lparr>price = p, qty = v\<rparr>))))))"

definition gemini_level :: "(string \<Rightarrow> error + real) \<Rightarrow> json \<Rightarrow> error + Order" where
  "gemini_level stod b =
     and_then (json_at_key b ''price'') (\<lambda>b0.
     and_then (json_get_string b0) (\<lambda>s0.
     and_then (stod s0) (\<lambda>p.
     and_then (json_at_key b ''amount'') (\<lambda>b1.
     and_then (json_get_string b1) (\<lambda>s1.
     and_then (stod s1) (\<lambda>v.
     Inr \<lparr>price = p, qty = v\<rparr>))))))"

text \<open>The \<^verbatim>\<open>push_back\<close> loops: the first level that throws ends the loop.\<close>

fun push_levels :: "(json \<Rightarrow> error + Order) \<Rightarrow> json list \<Rightarrow> Order list \<Rightarrow> error + Order list" where
  "push_levels level [] acc = Inr acc"
| "push_levels level (b # bs) acc =
     (case level b of Inl e \<Rightarrow> Inl e | Inr lv \<Rightarrow> push_levels level bs (acc @ [lv]))"

text \<open>
  An exchange object owns its limiter. The field \<open>requests\<close> is not in the source: it
  counts the calls of \<^verbatim>\<open>curl_easy_perform\<close> made so far, so that a statement can say
  whether a network call happened.
\<close>

record Exchange =
  limiter :: RateLimiter
  requests :: nat

text \<open>
  \<^verbatim>\<open>CoinbaseExchange::fetch\<close> (lines 54-80) and \<^verbatim>\<open>GeminiExchange::fetch\<close>
  (lines 87-113) differ in the URL and in the way a level is read, which is the
  parameter \<open>level\<close>. The inputs from outside are the clock reading \<open>now\<close> used by the
  limiter and \<open>reply\<close>, the outcome of \<^verbatim>\<open>json::parse(response)\<close> on the text that the
  transfer left in \<^verbatim>\<open>response\<close>. The return code of \<^verbatim>\<open>curl_easy_perform\<close> is not
  looked at: after a failed transfer \<^verbatim>\<open>response\<close> is empty or cut off, and
  \<^verbatim>\<open>json::parse\<close> throws \<^verbatim>\<open>parse_error\<close>. An exception leaves \<^verbatim>\<open>fetch\<close>.
\<close>

definition fetch_book ::
  "(json \<Rightarrow> error + Order) \<Rightarrow> int \<Rightarrow> error + json \<Rightarrow> Exchange \<Rightarrow> (error + OrderBook) \<times> Exchange" where
  "fetch_book level now reply ex =
     (let ob = \<lparr>bids = [], asks = []\<rparr>
      in case allow now (limiter ex) of (ok, rl) \<Rightarrow>
           if \<not> ok then (Inr ob, ex\<lparr>limiter := rl\<rparr>)
           else (and_then reply (\<lambda>j.
                 and_then (json_at_key j ''bids'') (\<lambda>jb.
                 and_then (push_levels level (json_items jb) (bids ob)) (\<lambda>new_bids.
                 and_then (json_at_key j ''asks'') (\<lambda>ja.
                 and_then (push_levels level (json_items ja) (asks ob)) (\<lambda>new_asks.
                 Inr (ob\<lparr>bids := new_bids, asks := new_asks\<rparr>)))))),
                 ex\<lparr>limiter := rl, requests := requests ex + 1\<rparr>))"

definition coinbase_fetch ::
  "(string \<Rightarrow> error + real) \<Rightarrow> int \<Rightarrow> error + json \<Rightarrow> Exchange \<Rightarrow> (error + OrderBook) \<times> Exchange" where
  "coinbase_fetch stod = fetch_book (coinbase_level stod)"

definition gemini_fetch ::
  "(string \<Rightarrow> error + real) \<Rightarrow> int \<Rightarrow> error + json \<Rightarrow> Exchange \<Rightarrow> (error + OrderBook) \<times> Exchange" where
  "gemini_fetch stod = fetch_book (gemini_level stod)"

section \<open>Entry point\<close>

text \<open>
  What \<^verbatim>\<open>main\<close> receives from outside besides \<^verbatim>\<open>argv\<close>: for each of the two
  fetches the clock reading and the parsed reply.
\<close>

record environment =
  cb_now :: int
  cb_reply :: "error + json"
  gm_now :: int
  gm_reply :: "error + json"

text \<open>
  A run either prints the two report lines for a quantity, a buy cost and a sell
  revenue and returns 0, or ends in \<^verbatim>\<open>std::terminate\<close> because an exception left
  \<^verbatim>\<open>main\<close>; then nothing has been printed on the standard output.
\<close>

datatype outcome = Printed real real real | Terminated error

definition new_exchange :: Exchange where
  "new_exchange = \<lparr>limiter = \<lparr>lastCallNs = 0\<rparr>, requests = 0\<rparr>"

definition main :: "(string \<Rightarrow> error + real) \<Rightarrow> string list \<Rightarrow> environment \<Rightarrow> outcome" where
  "main stod argv env =
     (case (if length argv = 3 \<and> argv ! 1 = ''--qty'' then stod (argv ! 2) else Inr 10) of
        Inl e \<Rightarrow> Terminated e
      | Inr q \<Rightarrow>
         (case fst (coinbase_fetch stod (cb_now env) (cb_reply env) new_exchange) of
            Inl e \<Rightarrow> Terminated e
          | Inr cb \<Rightarrow>
             (case fst (gemini_fetch stod (gm_now env) (gm_reply env) new_exchange) of
                Inl e \<Rightarrow> Terminated e
              | Inr gm \<Rightarrow>
                 (case aggregate cb gm of (bids0, asks0) \<Rightarrow>
                    let buyCost = snd (executeBuy asks0 q);
                        sellRevenue = snd (executeSell bids0 q)
                    in Printed q buyCost sellRevenue))))"

subsection \<open>A decimal reading of \<^verbatim>\<open>std::stod\<close>\<close>

text \<open>
  For statements at concrete strings: \<^verbatim>\<open>std::stod\<close> on decimal notation. White space
  is skipped, then come an optional sign, digits with an optional fraction, and an
  optional exponent; the rest of the string is ignored, as \<^verbatim>\<open>std::stod\<close> does when no
  position is asked for. When no digit can be read the call throws
  \<^verbatim>\<open>std::invalid_argument\<close>. Hexadecimal notation, \<^verbatim>\<open>inf\<close>, \<^verbatim>\<open>nan\<close> and values
  beyond the range of a \<^verbatim>\<open>double\<close> are not covered.
\<close>

definition is_space :: "char \<Rightarrow> bool" where
  "is_space c = (let n = (of_char c :: nat) in n = 32 \<or> (9 \<le> n \<and> n \<le> 13))"

definition is_digit :: "char \<Rightarrow> bool" where
  "is_digit c = (let n = (of_char c :: nat) in 48 \<le> n \<and> n \<le> 57)"

definition digits_value :: "string \<Rightarrow> nat" where
  "digits_value ds = foldl (\<lambda>acc c. 10 * acc + (of_char c - 48)) 0 ds"

definition strip_sign :: "string \<Rightarrow> bool \<times> string" where
  "strip_sign s =
     (case s of
        [] \<Rightarrow> (False, s)
      | c # r \<Rightarrow> if c = CHR ''-'' then (True, r) else if c = CHR ''+'' then (False, r) else (False, s))"

definition stod_decimal :: "string \<Rightarrow> error + real" where
  "stod_decimal s =
     (case strip_sign (dropWhile is_space s) of (neg, s2) \<Rightarrow>
        let ip = takeWhile is_digit s2;
            r1 = dropWhile is_digit s2;
            has_point = (r1 \<noteq> [] \<and> hd r1 = CHR ''.'');
            fp = (if has_point then takeWhile is_digit (tl r1) else []);
            r2 = (if has_point then dropWhile is_digit (tl r1) else r1);
            mantissa = real (digits_value ip) + real (digits_value fp) / 10 ^ length fp;
            scaled =
              (if r2 \<noteq> [] \<and> (hd r2 = CHR ''e'' \<or> hd r2 = CHR ''E'')
               then (case strip_sign (tl r2) of (eneg, r3) \<Rightarrow>
                       let ed = takeWhile is_digit r3
                       in if ed = [] then mantissa
                          else if eneg then mantissa / 10 ^ digits_value ed
                          else mantissa * 10 ^ digits_value ed)
               else mantissa)
        in if ip = [] \<and> fp = [] then Inl InvalidArgument
           else Inr (if neg then - scaled else scaled))"

section \<open>Properties of the walk\<close>

lemma executeBuy_unfold:
  "executeBuy asks0 q = (sort_key price asks0, fst (buy_loop (sort_key price asks0) q 0))"
  by (simp add: executeBuy_def Let_def)

lemma executeSell_unfold:
  "executeSell bids0 q =
     (sort_key (\<lambda>a. - price a) bids0, fst (sell_loop (sort_key (\<lambda>a. - price a) bids0) q 0))"
  by (simp add: executeSell_def Let_def)

lemma spec_walk_nonpos: "r \<le> 0 \<Longrightarrow> spec_walk ls r c = c"
  by (cases ls) simp_all

lemma buy_loop_spec_walk: "0 < q \<Longrightarrow> fst (buy_loop ls q c) = spec_walk ls q c"
  by (induction ls q c rule: buy_loop.induct) (auto simp: Let_def spec_walk_nonpos)

lemma sell_loop_eq_buy_loop: "sell_loop ls q c = buy_loop ls q c"
  by (induction ls q c rule: buy_loop.induct) (simp_all add: Let_def)

lemma qty_sum_nonneg: "\<forall>a\<in>set ls. 0 \<le> qty a \<Longrightarrow> 0 \<le> sum_list (map qty ls)"
  by (induction ls) auto


lemma sorted_desc_price:
  "sorted (map (\<lambda>a. - price a) ls) = sorted_wrt (\<lambda>a b. price b \<le> price a) ls"
  by (simp add: sorted_wrt_map)

subsection \<open>Levels of equal price\<close>

text \<open>
  A run of levels of one price \<open>p\<close>, none with a negative quantity, acts on the loop
  like the single level that holds their total quantity.
\<close>

lemma buy_loop_group:
  "g \<noteq> [] \<Longrightarrow> \<forall>a\<in>set g. price a = p \<and> 0 \<le> qty a \<Longrightarrow>
   buy_loop (g @ rest) q c =
     (let take = min q (sum_list (map qty g)); c' = c + take * p; q' = q - take
      in if q' \<le> 0 then (c', q') else buy_loop rest q' c')"
proof (induction g arbitrary: q c)
  case Nil
  then show ?case by simp
next
  case (Cons a g)
  have nn: "0 \<le> sum_list (map qty g)"
    using Cons.prems by (simp add: qty_sum_nonneg)
  have pa: "price a = p" and qa: "0 \<le> qty a" using Cons.prems by simp_all
  show ?case
  proof (cases "g = []")
    case True
    then show ?thesis using pa by (simp add: Let_def)
  next
    case False
    have ih: "buy_loop (g @ rest) q' c' =
     (let take = min q' (sum_list (map qty g)); c'' = c' + take * p; q'' = q' - take
      in if q'' \<le> 0 then (c'', q'') else buy_loop rest q'' c'')" for q' c'
      using Cons.IH[OF False] Cons.prems by simp
    show ?thesis
    proof (cases "q \<le> qty a")
      case True
      then show ?thesis using nn pa qa by (simp add: Let_def min_def)
    next
      case False
      then show ?thesis using nn pa qa
        by (simp add: Let_def ih min_def algebra_simps)
    qed
  qed
qed

lemma sorted_key_split:
  fixes k :: "Order \<Rightarrow> real"
  shows "sorted (map k l) \<Longrightarrow> \<forall>x\<in>set l. p \<le> k x \<Longrightarrow>
   l = filter (\<lambda>x. k x = p) l @ filter (\<lambda>x. k x \<noteq> p) l"
proof (induction l)
  case Nil
  then show ?case by simp
next
  case (Cons a l)
  show ?case
  proof (cases "k a = p")
    case True
    then show ?thesis using Cons by simp
  next
    case False
    then have "p < k a" using Cons.prems by auto
    then have "\<forall>x\<in>set l. p < k x" using Cons.prems by fastforce
    then have "filter (\<lambda>x. k x = p) l = []" "filter (\<lambda>x. k x \<noteq> p) l = l"
      by (auto simp: filter_empty_conv filter_id_conv)
    then show ?thesis using False by simp
  qed
qed

text \<open>
  Two arrangements of the same levels that are both sorted on a key which determines
  the price differ only inside runs of equal price, so the loop cannot tell them apart.
  This covers every result \<^verbatim>\<open>std::sort\<close> may produce.
\<close>

lemma buy_loop_sorted_perm:
  fixes k :: "Order \<Rightarrow> real"
  assumes key: "\<And>x y. k x = k y \<Longrightarrow> price x = price y"
  shows "sorted (map k l1) \<Longrightarrow> sorted (map k l2) \<Longrightarrow> mset l1 = mset l2 \<Longrightarrow>
   \<forall>a\<in>set l1. 0 \<le> qty a \<Longrightarrow> buy_loop l1 q c = buy_loop l2 q c"
proof (induction "length l1" arbitrary: l1 l2 q c rule: less_induct)
  case less
  show ?case
  proof (cases l1)
    case Nil
    then show ?thesis using less.prems by simp
  next
    case (Cons a t)
    define p where "p = k a"
    define g1 where "g1 = filter (\<lambda>x. k x = p) l1"
    define g2 where "g2 = filter (\<lambda>x. k x = p) l2"
    define r1 where "r1 = filter (\<lambda>x. k x \<noteq> p) l1"
    define r2 where "r2 = filter (\<lambda>x. k x \<noteq> p) l2"
    have seteq: "set l1 = set l2" using less.prems(3) by (rule mset_eq_setD)
    have low1: "\<forall>x\<in>set l1. p \<le> k x"
      using less.prems(1) Cons by (auto simp: p_def)
    have low2: "\<forall>x\<in>set l2. p \<le> k x" using low1 seteq by simp
    have s1: "l1 = g1 @ r1" unfolding g1_def r1_def
      by (rule sorted_key_split[OF less.prems(1) low1])
    have s2: "l2 = g2 @ r2" unfolding g2_def r2_def
      by (rule sorted_key_split[OF less.prems(2) low2])
    have mg: "mset g1 = mset g2" by (simp add: g1_def g2_def less.prems(3))
    have mr: "mset r1 = mset r2" by (simp add: r1_def r2_def less.prems(3))
    have "a \<in> set g1" using Cons by (simp add: g1_def p_def)
    then have ne1: "g1 \<noteq> []" by auto
    have ne2: "g2 \<noteq> []" using ne1 mg by auto
    have pk: "price x = price a" if "k x = p" for x
      using that by (intro key) (simp add: p_def)
    have grp1: "\<forall>x\<in>set g1. price x = price a \<and> 0 \<le> qty x"
      using less.prems(4) by (simp add: g1_def pk)
    have grp2: "\<forall>x\<in>set g2. price x = price a \<and> 0 \<le> qty x"
      using less.prems(4) seteq by (simp add: g2_def pk)
    have "sum_mset (mset (map qty g1)) = sum_mset (mset (map qty g2))"
      using mg by simp
    then have tot: "sum_list (map qty g1) = sum_list (map qty g2)"
      by (simp only: sum_mset_sum_list)
    have len: "length r1 < length l1"
      unfolding r1_def by (rule length_filter_less[of a]) (simp_all add: Cons p_def)
    have ih: "buy_loop r1 q' c' = buy_loop r2 q' c'" for q' c'
    proof (rule less.hyps[OF len _ _ mr])
      show "sorted (map k r1)" unfolding r1_def
        using less.prems(1) by (rule sorted_filter)
      show "sorted (map k r2)" unfolding r2_def
        using less.prems(2) by (rule sorted_filter)
      show "\<forall>a\<in>set r1. 0 \<le> qty a" using less.prems(4) by (simp add: r1_def)
    qed
    have "buy_loop (g1 @ r1) q c = buy_loop (g2 @ r2) q c"
      by (simp add: buy_loop_group[OF ne1 grp1] buy_loop_group[OF ne2 grp2] tot ih Let_def)
    then show ?thesis using s1 s2 by simp
  qed
qed

lemma executeBuy_any_sort:
  assumes "sorted (map price l)" "mset l = mset asks0" "\<forall>a\<in>set asks0. 0 \<le> qty a"
  shows "snd (executeBuy asks0 q) = fst (buy_loop l q 0)"
proof -
  have "buy_loop (sort_key price asks0) q 0 = buy_loop l q 0"
    by (rule buy_loop_sorted_perm[where k = price]) (use assms in simp_all)
  then show ?thesis by (simp add: executeBuy_unfold)
qed

lemma executeSell_any_sort:
  assumes "sorted_wrt (\<lambda>a b. price b \<le> price a) l" "mset l = mset bids0"
    "\<forall>a\<in>set bids0. 0 \<le> qty a"
  shows "snd (executeSell bids0 q) = fst (sell_loop l q 0)"
proof -
  have "sorted (map (\<lambda>a. - price a) l)" using assms(1) by (simp add: sorted_desc_price)
  then have "buy_loop (sort_key (\<lambda>a. - price a) bids0) q 0 = buy_loop l q 0"
    by (rule buy_loop_sorted_perm[where k = "\<lambda>a. - price a", rotated 2])
       (use assms in simp_all)
  then show ?thesis by (simp add: executeSell_unfold sell_loop_eq_buy_loop)
qed

subsection \<open>Bounds on the walk\<close>

lemma buy_loop_cost_ge:
  "\<forall>a\<in>set ls. 0 \<le> price a \<and> 0 \<le> qty a \<Longrightarrow> 0 \<le> q \<Longrightarrow> c \<le> fst (buy_loop ls q c)"
proof (induction ls q c rule: buy_loop.induct)
  case (1 q cost)
  then show ?case by simp
next
  case (2 lv lvs q cost)
  have t: "0 \<le> min q (qty lv) * price lv" using 2(2,3) by simp
  show ?case
  proof (cases "q - min q (qty lv) \<le> 0")
    case True
    then show ?thesis using t by (simp add: Let_def)
  next
    case False
    have "cost + min q (qty lv) * price lv
          \<le> fst (buy_loop lvs (q - min q (qty lv)) (cost + min q (qty lv) * price lv))"
      using 2(1)[OF refl refl refl False] 2(2) False by simp
    then show ?thesis using t False by (simp add: Let_def)
  qed
qed

lemma buy_loop_mono:
  "\<forall>a\<in>set ls. 0 \<le> price a \<and> 0 \<le> qty a \<Longrightarrow> q1 \<le> q2 \<Longrightarrow>
   fst (buy_loop ls q1 c) \<le> fst (buy_loop ls q2 c)"
proof (induction ls arbitrary: q1 q2 c)
  case Nil
  then show ?case by simp
next
  case (Cons lv lvs)
  have p: "0 \<le> price lv" and v: "0 \<le> qty lv" using Cons.prems by simp_all
  have rest: "\<forall>a\<in>set lvs. 0 \<le> price a \<and> 0 \<le> qty a" using Cons.prems by simp
  show ?case
  proof (cases "q1 \<le> qty lv")
    case True
    note q1le = True
    show ?thesis
    proof (cases "q2 \<le> qty lv")
      case True
      then show ?thesis using q1le p Cons.prems(2) by (simp add: Let_def mult_right_mono)
    next
      case False
      have "c + qty lv * price lv
            \<le> fst (buy_loop lvs (q2 - qty lv) (c + qty lv * price lv))"
        using buy_loop_cost_ge[OF rest] False by simp
      moreover have "q1 * price lv \<le> qty lv * price lv"
        using q1le p by (simp add: mult_right_mono)
      ultimately show ?thesis using q1le False by (simp add: Let_def)
    qed
  next
    case False
    then have "\<not> q2 \<le> qty lv" using Cons.prems(2) by simp
    then show ?thesis
      using False Cons.IH[OF rest, of "q1 - qty lv" "q2 - qty lv"] Cons.prems(2)
      by (simp add: Let_def)
  qed
qed

lemma buy_loop_consumed:
  "\<forall>a\<in>set ls. 0 \<le> qty a \<Longrightarrow> q - snd (buy_loop ls q c) \<le> sum_list (map qty ls)"
proof (induction ls arbitrary: q c)
  case Nil
  then show ?case by simp
next
  case (Cons lv lvs)
  have nn: "0 \<le> sum_list (map qty lvs)" using Cons.prems by (simp add: qty_sum_nonneg)
  show ?case
  proof (cases "q - min q (qty lv) \<le> 0")
    case True
    then show ?thesis using nn Cons.prems by (simp add: Let_def min_def split: if_splits)
  next
    case False
    then show ?thesis
      using Cons.IH[of "q - min q (qty lv)" "c + min q (qty lv) * price lv"] Cons.prems
      by (simp add: Let_def min_def split: if_splits)
  qed
qed



subsection \<open>Boundary requests\<close>

lemma executeBuy_empty: "snd (executeBuy [] q) = 0"
  by (simp add: executeBuy_unfold)

lemma executeSell_empty: "snd (executeSell [] q) = 0"
  by (simp add: executeSell_unfold)

lemma buy_loop_zero_qty:
  "\<forall>a\<in>set ls. 0 \<le> qty a \<Longrightarrow> fst (buy_loop ls 0 c) = c"
  by (cases ls) (simp_all add: Let_def)

lemma executeBuy_zero_qty: "\<forall>a\<in>set asks0. 0 \<le> qty a \<Longrightarrow> snd (executeBuy asks0 0) = 0"
  by (simp add: executeBuy_unfold buy_loop_zero_qty)

lemma executeSell_zero_qty: "\<forall>a\<in>set bids0. 0 \<le> qty a \<Longrightarrow> snd (executeSell bids0 0) = 0"
  by (simp add: executeSell_unfold sell_loop_eq_buy_loop buy_loop_zero_qty)

section \<open>Properties of the matcher with rounded operations\<close>

text \<open>Without rounding the loops are the exact ones.\<close>

lemma buy_loop_fp_exact:
  "buy_loop_fp (\<lambda>x. x) ls q c t = (fst (buy_loop ls q c), snd (buy_loop ls q c), t + (q - snd (buy_loop ls q c)))"
  by (induction ls q c arbitrary: t rule: buy_loop.induct) (simp_all add: Let_def)

lemma sell_loop_fp_exact:
  "sell_loop_fp (\<lambda>x. x) ls q c t = (fst (sell_loop ls q c), snd (sell_loop ls q c), t + (q - snd (sell_loop ls q c)))"
  by (induction ls q c arbitrary: t rule: sell_loop.induct) (simp_all add: Let_def)

lemma executeBuy_fp_exact: "executeBuy_fp (\<lambda>x. x) asks0 q = executeBuy asks0 q"
  by (simp add: executeBuy_fp_def executeBuy_def buy_loop_fp_exact Let_def)

lemma executeSell_fp_exact: "executeSell_fp (\<lambda>x. x) bids0 q = executeSell bids0 q"
  by (simp add: executeSell_fp_def executeSell_def sell_loop_fp_exact Let_def)



lemma sort_key_distinct_unique:
  fixes k :: "Order \<Rightarrow> real"
  assumes "distinct (map k xs)" "mset ys = mset xs" "sorted (map k ys)"
  shows "ys = sort_key k xs"
proof -
  have m: "mset (map k ys) = mset (map k (sort_key k xs))" using assms(2) by simp
  have d1: "distinct (map k (sort_key k xs))"
    using assms(1) by (metis distinct_map distinct_sort set_sort)
  have d2: "distinct (map k ys)" using m d1 by (metis mset_eq_imp_distinct_iff)
  have "set (map k ys) = set (map k (sort_key k xs))" using m by (rule mset_eq_setD)
  then have eq: "map k ys = map k (sort_key k xs)"
    using assms(3) d1 d2 by (intro sorted_distinct_set_unique) simp_all
  have "inj_on k (set ys \<union> set (sort_key k xs))"
    using assms(1,2) by (metis distinct_map mset_eq_setD set_sort sup.idem)
  then show ?thesis using eq by (simp add: inj_on_map_eq_map)
qed

lemma sort_key_append_commute:
  fixes k :: "Order \<Rightarrow> real"
  assumes "distinct (map k (xs @ ys))"
  shows "sort_key k (ys @ xs) = sort_key k (xs @ ys)"
  by (rule sort_key_distinct_unique[OF assms]) simp_all

lemma distinct_neg_price:
  "distinct (map price ls) \<Longrightarrow> distinct (map (\<lambda>a. - price a) ls)"
  by (induction ls) auto

lemma executeBuy_fp_append_commute:
  "distinct (map price (xs @ ys)) \<Longrightarrow> executeBuy_fp rnd (xs @ ys) q = executeBuy_fp rnd (ys @ xs) q"
  using sort_key_append_commute[of price xs ys] by (simp add: executeBuy_fp_def)

lemma executeSell_fp_append_commute:
  "distinct (map price (xs @ ys)) \<Longrightarrow> executeSell_fp rnd (xs @ ys) q = executeSell_fp rnd (ys @ xs) q"
  using sort_key_append_commute[of "\<lambda>a. - price a" xs ys] distinct_neg_price[of "xs @ ys"]
  by (simp add: executeSell_fp_def)

lemma exact_append_commute:
  assumes nn: "\<forall>a\<in>set xs \<union> set ys. 0 \<le> qty a"
  shows "snd (executeBuy (xs @ ys) q) = snd (executeBuy (ys @ xs) q)"
    and "snd (executeSell (xs @ ys) q) = snd (executeSell (ys @ xs) q)"
proof -
  have "snd (executeBuy (xs @ ys) q) = fst (buy_loop (sort_key price (ys @ xs)) q 0)"
    by (rule executeBuy_any_sort) (use nn in auto)
  then show "snd (executeBuy (xs @ ys) q) = snd (executeBuy (ys @ xs) q)"
    by (simp add: executeBuy_unfold)
  have "snd (executeSell (xs @ ys) q)
          = fst (sell_loop (sort_key (\<lambda>a. - price a) (ys @ xs)) q 0)"
  proof (rule executeSell_any_sort)
    have "sorted (map (\<lambda>a. - price a) (sort_key (\<lambda>a. - price a) (ys @ xs)))"
      by (rule sorted_sort_key)
    then show "sorted_wrt (\<lambda>a b. price b \<le> price a) (sort_key (\<lambda>a. - price a) (ys @ xs))"
      by (simp only: sorted_desc_price)
  qed (use nn in auto)
  then show "snd (executeSell (xs @ ys) q) = snd (executeSell (ys @ xs) q)"
    by (simp add: executeSell_unfold)
qed

lemma exact_any_sorted:
  assumes "\<forall>a\<in>set pool. 0 \<le> qty a"
    and "sorted (map price l1)" "mset l1 = mset pool"
    and "sorted (map price l2)" "mset l2 = mset pool"
  shows "fst (buy_loop l1 q 0) = fst (buy_loop l2 q 0)"
proof -
  have "\<forall>a\<in>set l1. 0 \<le> qty a"
    using mset_eq_setD[OF assms(3)] assms(1) by auto
  moreover have "mset l1 = mset l2" using assms(3,5) by simp
  ultimately have "buy_loop l1 q 0 = buy_loop l2 q 0"
    using assms(2,4) by (intro buy_loop_sorted_perm[where k = price]) simp_all
  then show ?thesis by simp
qed

subsection \<open>Evaluating binary64 roundings\<close>

lemma bit_length_numeral [simp]:
  "bit_length 0 = 0"
  "bit_length 1 = 1"
  "bit_length (numeral (Num.Bit0 n)) = 1 + bit_length (numeral n)"
  "bit_length (numeral (Num.Bit1 n)) = 1 + bit_length (numeral n)"
  "bit_length (- numeral n) = 0"
  by (subst bit_length.simps, simp)+

lemmas fp_eval = round_double_def binade_def pow2_def round_half_even_def Let_def
  executeBuy_fp_def executeSell_fp_def taken_fp_def aggregate_def

lemma round_double_tenths:
  "round_double (1 / 10) = 3602879701896397 / 36028797018963968"
  "round_double (1 / 5) = 3602879701896397 / 18014398509481984"
  "round_double (3 / 10) = 5404319552844595 / 18014398509481984"
  by (simp_all add: fp_eval)

lemma round_double_examples:
  "round_double (1 / 3) = 6004799503160661 / 18014398509481984
   \<and> round_double (- (1 / 3)) = - (6004799503160661 / 18014398509481984)
   \<and> round_double 10 = 10
   \<and> round_double (9007199254740992 + 1) = 9007199254740992
   \<and> round_double (9007199254740992 + 3) = 9007199254740996
   \<and> round_double (9007199254740992 + 1 / 2) = 9007199254740992
   \<and> round_double (1 / 2 ^ 1075) = 0
   \<and> round_double (3 / 2 ^ 1075) = 1 / 2 ^ 1073"
  by (simp add: fp_eval)

section \<open>Properties of the rate limiter\<close>

lemma allow_eq:
  "allow now rl =
     (if cooldown_ns \<le> now - lastCallNs rl then (True, rl\<lparr>lastCallNs := now\<rparr>) else (False, rl))"
  by (simp add: allow_def compare_exchange_strong_def cooldown_ns_def Let_def)

lemma map_now_update:
  "i < length cs \<Longrightarrow> map now_ns (cs[i := (cs ! i)\<lparr>pc := p\<rparr>]) = map now_ns cs"
  by (simp add: map_update list_update_same_conv)

lemma limiter_inv_init: "limiter_inv nows (stored, callers nows)"
  by (simp add: limiter_inv_def callers_def comp_def)

lemma limiter_inv_step:
  assumes a: "limiter_inv nows cfg"
  shows "limiter_inv nows (step i cfg)"
proof -
  obtain stored cs where cfg: "cfg = (stored, cs)" by (cases cfg)
  have nows: "map now_ns cs = nows"
    and le: "\<And>j. j < length cs \<Longrightarrow> pc (cs ! j) = Returned True \<Longrightarrow> now_ns (cs ! j) \<le> stored"
    and cas: "\<And>j l. j < length cs \<Longrightarrow> pc (cs ! j) = AtCas l
                \<Longrightarrow> cooldown_ns \<le> now_ns (cs ! j) - l"
    and apart: "\<And>j m. j < length cs \<Longrightarrow> m < length cs \<Longrightarrow> j \<noteq> m \<Longrightarrow>
         pc (cs ! j) = Returned True \<Longrightarrow> pc (cs ! m) = Returned True \<Longrightarrow>
         cooldown_ns \<le> \<bar>now_ns (cs ! j) - now_ns (cs ! m)\<bar>"
    using a cfg by (auto simp: limiter_inv_def)
  show ?thesis
  proof (cases "length cs \<le> i")
    case True
    then show ?thesis using a cfg by (simp add: step_def)
  next
    case False
    then have il: "i < length cs" by simp
    show ?thesis
    proof (cases "pc (cs ! i)")
      case AtLoad
      then show ?thesis using a cfg il
        by (auto simp: step_def limiter_inv_def Let_def map_now_update nth_list_update
              cooldown_ns_def)
    next
      case (AtCas l)
      have cd: "cooldown_ns \<le> now_ns (cs ! i) - l" using cas[OF il AtCas] .
      show ?thesis
      proof (cases "stored = l")
        case False
        then have st: "step i cfg = (stored, cs[i := (cs ! i)\<lparr>pc := Returned False\<rparr>])"
          using cfg il AtCas by (simp add: step_def compare_exchange_strong_def)
        show ?thesis unfolding st using il nows le cas apart AtCas
          by (auto simp: limiter_inv_def map_now_update nth_list_update)
      next
        case True
        then have st: "step i cfg = (now_ns (cs ! i), cs[i := (cs ! i)\<lparr>pc := Returned True\<rparr>])"
          using cfg il AtCas by (simp add: step_def compare_exchange_strong_def)
        have older: "now_ns (cs ! j) \<le> now_ns (cs ! i) - cooldown_ns"
          if "j < length cs" "pc (cs ! j) = Returned True" for j
          using le[OF that] cd True by simp
        have pos: "0 < cooldown_ns" by (simp add: cooldown_ns_def)
        have o1: "now_ns (cs ! j) \<le> now_ns (cs ! i)"
          if "j < length cs" "pc (cs ! j) = Returned True" for j
          using older[OF that] pos by simp
        have o2: "cooldown_ns \<le> \<bar>now_ns (cs ! i) - now_ns (cs ! j)\<bar>"
          if "j < length cs" "pc (cs ! j) = Returned True" for j
          using older[OF that] pos by simp
        have o3: "cooldown_ns \<le> \<bar>now_ns (cs ! j) - now_ns (cs ! i)\<bar>"
          if "j < length cs" "pc (cs ! j) = Returned True" for j
          using older[OF that] pos by simp
        have o4: "cooldown_ns \<le> now_ns (cs ! i) - now_ns (cs ! j)"
          if "j < length cs" "pc (cs ! j) = Returned True" for j
          using older[OF that] by simp
        show ?thesis unfolding st limiter_inv_def using il nows cas apart AtCas
          by (auto simp: map_now_update nth_list_update o1 o2 o3 o4)
      qed
    next
      case (Returned b)
      then show ?thesis using a cfg il by (simp add: step_def)
    qed
  qed
qed

lemma limiter_inv_run: "limiter_inv nows cfg \<Longrightarrow> limiter_inv nows (run schedule cfg)"
  unfolding run_def by (induction schedule arbitrary: cfg) (simp_all add: limiter_inv_step)

lemma granted_apart:
  assumes "granted (run schedule (stored, callers nows)) i"
    and "granted (run schedule (stored, callers nows)) j" and "i \<noteq> j"
  shows "cooldown_ns \<le> \<bar>nows ! i - nows ! j\<bar>"
proof -
  obtain s cs where r: "run schedule (stored, callers nows) = (s, cs)"
    by (cases "run schedule (stored, callers nows)")
  have I: "limiter_inv nows (s, cs)"
    using limiter_inv_run[OF limiter_inv_init, of nows schedule stored] r by simp
  have m: "map now_ns cs = nows" using I by (simp add: limiter_inv_def)
  have ap: "\<forall>i<length cs. \<forall>j<length cs.
              i \<noteq> j \<and> pc (cs ! i) = Returned True \<and> pc (cs ! j) = Returned True
              \<longrightarrow> cooldown_ns \<le> \<bar>now_ns (cs ! i) - now_ns (cs ! j)\<bar>"
    using I by (simp add: limiter_inv_def)
  have g: "i < length cs" "j < length cs"
    "pc (cs ! i) = Returned True" "pc (cs ! j) = Returned True"
    using assms r by (simp_all add: granted_def)
  have "nows ! i = now_ns (cs ! i)" "nows ! j = now_ns (cs ! j)"
    using g(1,2) m by (metis nth_map)+
  then show ?thesis using ap g assms(3) by simp
qed

text \<open>The stored value changes only in a step that grants the call.\<close>

lemma step_changes_only_on_grant:
  "fst (step i cfg) \<noteq> fst cfg \<Longrightarrow>
   granted (step i cfg) i \<and> fst (step i cfg) = now_ns (snd cfg ! i)"
  by (auto simp: step_def granted_def compare_exchange_strong_def Let_def
        split: prod.splits progress.splits if_splits)

text \<open>A caller that runs alone in the interleaved model behaves as \<open>allow\<close> says.\<close>

lemma run_solo:
  "run [0, 0] (lastCallNs rl, callers [now]) =
     (lastCallNs (snd (allow now rl)), [\<lparr>now_ns = now, pc = Returned (fst (allow now rl))\<rparr>])"
  by (simp add: run_def step_def callers_def allow_eq compare_exchange_strong_def
        cooldown_ns_def Let_def)

section \<open>Properties of the quote sources and of the entry point\<close>

lemma fetch_book_denied:
  "\<not> fst (allow now (limiter ex)) \<Longrightarrow>
   fetch_book level now reply ex = (Inr \<lparr>bids = [], asks = []\<rparr>, ex)"
  by (simp add: fetch_book_def allow_eq Let_def split: if_splits)

lemma push_levels_Inr_iff:
  "push_levels level bs acc = Inr r \<longleftrightarrow> (\<exists>lvs. map level bs = map Inr lvs \<and> r = acc @ lvs)"
proof (induction bs arbitrary: acc)
  case Nil
  then show ?case by auto
next
  case (Cons b bs)
  show ?case
  proof (cases "level b")
    case (Inl e)
    then show ?thesis by (auto simp: map_eq_Cons_conv)
  next
    case (Inr lv)
    then show ?thesis
      by (auto simp: Cons.IH map_eq_Cons_conv Cons_eq_map_conv)
  qed
qed

lemma push_levels_Inl_iff:
  "push_levels level bs acc = Inl e \<longleftrightarrow>
     (\<exists>pre b post lvs. bs = pre @ b # post \<and> map level pre = map Inr lvs \<and> level b = Inl e)"
proof (induction bs arbitrary: acc)
  case Nil
  then show ?case by simp
next
  case (Cons a bs)
  show ?case
  proof (cases "level a")
    case (Inl e')
    have "(\<exists>pre b post lvs. a # bs = pre @ b # post \<and> map level pre = map Inr lvs \<and> level b = Inl e)
          \<longleftrightarrow> e' = e"
    proof
      assume "\<exists>pre b post lvs. a # bs = pre @ b # post \<and> map level pre = map Inr lvs \<and> level b = Inl e"
      then obtain pre b post lvs where h: "a # bs = pre @ b # post" "map level pre = map Inr lvs" "level b = Inl e"
        by blast
      show "e' = e"
      proof (cases pre)
        case Nil
        then show ?thesis using h Inl by simp
      next
        case (Cons p ps)
        then have "p = a" using h(1) by simp
        then show ?thesis using h(2) Cons Inl by (auto simp: map_eq_Cons_conv Cons_eq_map_conv)
      qed
    next
      assume "e' = e"
      then have "a # bs = [] @ a # bs \<and> map level [] = map Inr [] \<and> level a = Inl e"
        using Inl by simp
      then show "\<exists>pre b post lvs. a # bs = pre @ b # post \<and> map level pre = map Inr lvs \<and> level b = Inl e"
        by blast
    qed
    then show ?thesis using Inl by simp
  next
    case (Inr lv)
    have "(\<exists>pre b post lvs. a # bs = pre @ b # post \<and> map level pre = map Inr lvs \<and> level b = Inl e)
          \<longleftrightarrow> (\<exists>pre b post lvs. bs = pre @ b # post \<and> map level pre = map Inr lvs \<and> level b = Inl e)"
    proof
      assume "\<exists>pre b post lvs. a # bs = pre @ b # post \<and> map level pre = map Inr lvs \<and> level b = Inl e"
      then obtain pre b post lvs where h: "a # bs = pre @ b # post" "map level pre = map Inr lvs" "level b = Inl e"
        by blast
      show "\<exists>pre b post lvs. bs = pre @ b # post \<and> map level pre = map Inr lvs \<and> level b = Inl e"
      proof (cases pre)
        case Nil
        then show ?thesis using h Inr by simp
      next
        case (Cons p ps)
        then have "bs = ps @ b # post" using h(1) by simp
        moreover have "map level ps = map Inr (tl lvs)" using h(2) Cons by (cases lvs) auto
        ultimately show ?thesis using h(3) by blast
      qed
    next
      assume "\<exists>pre b post lvs. bs = pre @ b # post \<and> map level pre = map Inr lvs \<and> level b = Inl e"
      then obtain pre b post lvs where h: "bs = pre @ b # post" "map level pre = map Inr lvs" "level b = Inl e"
        by blast
      then have "a # bs = (a # pre) @ b # post \<and> map level (a # pre) = map Inr (lv # lvs) \<and> level b = Inl e"
        using Inr by simp
      then show "\<exists>pre b post lvs. a # bs = pre @ b # post \<and> map level pre = map Inr lvs \<and> level b = Inl e"
        by blast
    qed
    then show ?thesis using Inr Cons.IH by simp
  qed
qed

lemma json_get_string_Inr_iff: "json_get_string x = Inr s \<longleftrightarrow> x = JString s"
  by (cases x) auto

lemma coinbase_level_Inr_iff:
  "coinbase_level stod b = Inr lv \<longleftrightarrow>
     (\<exists>s0 s1 p v. json_at_index b 0 = Inr (JString s0) \<and> stod s0 = Inr p
        \<and> json_at_index b 1 = Inr (JString s1) \<and> stod s1 = Inr v
        \<and> lv = \<lparr>price = p, qty = v\<rparr>)"
  by (auto simp: coinbase_level_def and_then_def json_get_string_Inr_iff split: sum.splits)

lemma coinbase_level_Inl_iff:
  "coinbase_level stod b = Inl e \<longleftrightarrow>
     (json_at_index b 0 = Inl e
      \<or> (\<exists>x. json_at_index b 0 = Inr x \<and>
           (json_get_string x = Inl e
            \<or> (\<exists>s0. x = JString s0 \<and>
                 (stod s0 = Inl e
                  \<or> (\<exists>p. stod s0 = Inr p \<and>
                       (json_at_index b 1 = Inl e
                        \<or> (\<exists>y. json_at_index b 1 = Inr y \<and>
                             (json_get_string y = Inl e
                              \<or> (\<exists>s1. y = JString s1 \<and> stod s1 = Inl e))))))))))"
  by (auto simp: coinbase_level_def and_then_def json_get_string_Inr_iff split: sum.splits)

lemma gemini_level_Inr_iff:
  "gemini_level stod b = Inr lv \<longleftrightarrow>
     (\<exists>s0 s1 p v. json_at_key b ''price'' = Inr (JString s0) \<and> stod s0 = Inr p
        \<and> json_at_key b ''amount'' = Inr (JString s1) \<and> stod s1 = Inr v
        \<and> lv = \<lparr>price = p, qty = v\<rparr>)"
  by (auto simp: gemini_level_def and_then_def json_get_string_Inr_iff split: sum.splits)

lemma gemini_level_Inl_iff:
  "gemini_level stod b = Inl e \<longleftrightarrow>
     (json_at_key b ''price'' = Inl e
      \<or> (\<exists>x. json_at_key b ''price'' = Inr x \<and>
           (json_get_string x = Inl e
            \<or> (\<exists>s0. x = JString s0 \<and>
                 (stod s0 = Inl e
                  \<or> (\<exists>p. stod s0 = Inr p \<and>
                       (json_at_key b ''amount'' = Inl e
                        \<or> (\<exists>y. json_at_key b ''amount'' = Inr y \<and>
                             (json_get_string y = Inl e
                              \<or> (\<exists>s1. y = JString s1 \<and> stod s1 = Inl e))))))))))"
  by (auto simp: gemini_level_def and_then_def json_get_string_Inr_iff split: sum.splits)

lemma fetch_book_granted_state:
  "fst (allow now (limiter ex)) \<Longrightarrow>
   snd (fetch_book level now reply ex)
     = ex\<lparr>limiter := \<lparr>lastCallNs = now\<rparr>, requests := requests ex + 1\<rparr>"
  by (simp add: fetch_book_def allow_eq Let_def split: if_splits)

lemma fetch_book_granted_Inl_iff:
  "fst (allow now (limiter ex)) \<Longrightarrow>
   fst (fetch_book level now reply ex) = Inl e \<longleftrightarrow>
     (reply = Inl e
      \<or> (\<exists>j. reply = Inr j \<and>
           (json_at_key j ''bids'' = Inl e
            \<or> (\<exists>jb. json_at_key j ''bids'' = Inr jb \<and>
                 (push_levels level (json_items jb) [] = Inl e
                  \<or> (\<exists>new_bids. push_levels level (json_items jb) [] = Inr new_bids \<and>
                       (json_at_key j ''asks'' = Inl e
                        \<or> (\<exists>ja. json_at_key j ''asks'' = Inr ja \<and>
                             push_levels level (json_items ja) [] = Inl e))))))))"
  by (auto simp: fetch_book_def allow_eq and_then_def Let_def split: if_splits sum.splits)

lemma fetch_book_granted_Inr_iff:
  "fst (allow now (limiter ex)) \<Longrightarrow>
   fst (fetch_book level now reply ex) = Inr ob \<longleftrightarrow>
     (\<exists>j jb ja new_bids new_asks. reply = Inr j
        \<and> json_at_key j ''bids'' = Inr jb \<and> push_levels level (json_items jb) [] = Inr new_bids
        \<and> json_at_key j ''asks'' = Inr ja \<and> push_levels level (json_items ja) [] = Inr new_asks
        \<and> ob = \<lparr>bids = new_bids, asks = new_asks\<rparr>)"
  by (auto simp: fetch_book_def allow_eq and_then_def Let_def split: if_splits sum.splits)

lemma main_Terminated_iff:
  "main stod argv env = Terminated e \<longleftrightarrow>
     (let qa = (if length argv = 3 \<and> argv ! 1 = ''--qty'' then stod (argv ! 2) else Inr 10);
          cb = fst (coinbase_fetch stod (cb_now env) (cb_reply env) new_exchange);
          gm = fst (gemini_fetch stod (gm_now env) (gm_reply env) new_exchange)
      in qa = Inl e
         \<or> (\<exists>q. qa = Inr q) \<and> (cb = Inl e \<or> (\<exists>book. cb = Inr book) \<and> gm = Inl e))"
  by (auto simp: main_def Let_def split: sum.splits prod.splits)

lemma main_qty_throws:
  "stod s = Inl e \<Longrightarrow> main stod [prog, ''--qty'', s] env = Terminated e"
  by (simp add: main_def)

section \<open>The claims\<close>

text \<open>
  C1. For every sequence of ask levels and every positive quantity, \<^verbatim>\<open>executeBuy\<close>
  sorts the asks ascending by price and walks the sorted levels as the specification
  describes: at each level it takes the minimum of the remaining quantity and the
  quantity of the level, adds take times price to the cost, decrements the remaining
  quantity, and stops when the remaining quantity is not positive or the levels are
  exhausted. For the asks (50000, 0.5), (50010, 2.0) and the quantity 1.0 the cost
  is 50005.
\<close>

theorem executeBuy_walks_sorted_asks:
  assumes "0 < q"
  shows "sorted (map price (fst (executeBuy asks0 q)))
       \<and> mset (fst (executeBuy asks0 q)) = mset asks0
       \<and> snd (executeBuy asks0 q) = spec_walk (fst (executeBuy asks0 q)) q 0
       \<and> snd (executeBuy [\<lparr>price = 50000, qty = 1/2\<rparr>, \<lparr>price = 50010, qty = 2\<rparr>] 1) = 50005"
  using assms by (simp add: executeBuy_unfold buy_loop_spec_walk)

theorem executeBuy_walks_sorted_asks_witness:
  "(0::real) < 3
   \<and> fst (executeBuy [\<lparr>price = 30, qty = 1\<rparr>, \<lparr>price = 10, qty = 2\<rparr>, \<lparr>price = 20, qty = 4\<rparr>] 3)
       = [\<lparr>price = 10, qty = 2\<rparr>, \<lparr>price = 20, qty = 4\<rparr>, \<lparr>price = 30, qty = 1\<rparr>]
   \<and> snd (executeBuy [\<lparr>price = 30, qty = 1\<rparr>, \<lparr>price = 10, qty = 2\<rparr>, \<lparr>price = 20, qty = 4\<rparr>] 3)
       = spec_walk [\<lparr>price = 10, qty = 2\<rparr>, \<lparr>price = 20, qty = 4\<rparr>, \<lparr>price = 30, qty = 1\<rparr>] 3 0
   \<and> snd (executeBuy [\<lparr>price = 30, qty = 1\<rparr>, \<lparr>price = 10, qty = 2\<rparr>, \<lparr>price = 20, qty = 4\<rparr>] 3) = 40"
  using executeBuy_walks_sorted_asks
          [of 3 "[\<lparr>price = 30, qty = 1\<rparr>, \<lparr>price = 10, qty = 2\<rparr>, \<lparr>price = 20, qty = 4\<rparr>]"]
  by (simp add: executeBuy_unfold)

text \<open>
  C2. For every sequence of bid levels and every positive quantity, \<^verbatim>\<open>executeSell\<close>
  is \<^verbatim>\<open>executeBuy\<close> with the sort reversed: it sorts the bids descending by price and
  then walks them with the same loop, which is the walk of the specification. For the
  bids (100, 1), (90, 5) and the quantity 1 the revenue is 100.
\<close>

theorem executeSell_mirrors_executeBuy:
  assumes "0 < q"
  shows "sorted_wrt (\<lambda>a b. price b \<le> price a) (fst (executeSell bids0 q))
       \<and> mset (fst (executeSell bids0 q)) = mset bids0
       \<and> snd (executeSell bids0 q) = spec_walk (fst (executeSell bids0 q)) q 0
       \<and> snd (executeSell bids0 q) = fst (buy_loop (fst (executeSell bids0 q)) q 0)
       \<and> snd (executeSell [\<lparr>price = 100, qty = 1\<rparr>, \<lparr>price = 90, qty = 5\<rparr>] 1) = 100"
proof -
  have "sorted (map (\<lambda>a. - price a) (sort_key (\<lambda>a. - price a) bids0))"
    by (rule sorted_sort_key)
  then have "sorted_wrt (\<lambda>a b. price b \<le> price a) (sort_key (\<lambda>a. - price a) bids0)"
    by (simp only: sorted_desc_price)
  then show ?thesis using assms
    by (simp add: executeSell_unfold sell_loop_eq_buy_loop buy_loop_spec_walk)
qed

theorem executeSell_mirrors_executeBuy_witness:
  "(0::real) < 2
   \<and> fst (executeSell [\<lparr>price = 90, qty = 5\<rparr>, \<lparr>price = 100, qty = 1\<rparr>] 2)
       = [\<lparr>price = 100, qty = 1\<rparr>, \<lparr>price = 90, qty = 5\<rparr>]
   \<and> snd (executeSell [\<lparr>price = 90, qty = 5\<rparr>, \<lparr>price = 100, qty = 1\<rparr>] 2)
       = spec_walk [\<lparr>price = 100, qty = 1\<rparr>, \<lparr>price = 90, qty = 5\<rparr>] 2 0
   \<and> snd (executeSell [\<lparr>price = 90, qty = 5\<rparr>, \<lparr>price = 100, qty = 1\<rparr>] 2) = 190"
  using executeSell_mirrors_executeBuy
          [of 2 "[\<lparr>price = 90, qty = 5\<rparr>, \<lparr>price = 100, qty = 1\<rparr>]"]
  by (simp add: executeSell_unfold)




text \<open>
  C4. For every fixed set of ask levels (prices and quantities not negative, as the data
  model has it) and all quantities \<open>0 \<le> q1 \<le> q2\<close>, the cost that \<^verbatim>\<open>executeBuy\<close>
  returns for \<open>q1\<close> is at most the cost it returns for \<open>q2\<close>.
\<close>

theorem executeBuy_monotone_in_qty:
  assumes "\<forall>a\<in>set asks0. 0 \<le> price a \<and> 0 \<le> qty a" and "0 \<le> q1" and "q1 \<le> q2"
  shows "snd (executeBuy asks0 q1) \<le> snd (executeBuy asks0 q2)"
proof -
  have "\<forall>a\<in>set (sort_key price asks0). 0 \<le> price a \<and> 0 \<le> qty a" using assms(1) by simp
  then show ?thesis using assms(3) by (simp add: executeBuy_unfold buy_loop_mono)
qed

theorem executeBuy_monotone_in_qty_witness:
  "list_all (\<lambda>a. 0 \<le> price a \<and> 0 \<le> qty a)
      [\<lparr>price = 20, qty = 3\<rparr>, \<lparr>price = 10, qty = 1\<rparr>]
   \<and> (0::real) \<le> 2 \<and> (2::real) \<le> 3
   \<and> snd (executeBuy [\<lparr>price = 20, qty = 3\<rparr>, \<lparr>price = 10, qty = 1\<rparr>] 2) = 30
   \<and> snd (executeBuy [\<lparr>price = 20, qty = 3\<rparr>, \<lparr>price = 10, qty = 1\<rparr>] 3) = 50
   \<and> snd (executeBuy [\<lparr>price = 20, qty = 3\<rparr>, \<lparr>price = 10, qty = 1\<rparr>] 2)
       \<le> snd (executeBuy [\<lparr>price = 20, qty = 3\<rparr>, \<lparr>price = 10, qty = 1\<rparr>] 3)"
  using executeBuy_monotone_in_qty [of "[\<lparr>price = 20, qty = 3\<rparr>, \<lparr>price = 10, qty = 1\<rparr>]" 2 3]
  by (simp add: executeBuy_unfold)

text \<open>
  C5. The claim: \<^verbatim>\<open>executeBuy\<close> and \<^verbatim>\<open>executeSell\<close> return 0 whenever the requested
  quantity is at most 0, and whenever the sequence is empty. The loop tests
  \<^verbatim>\<open>qty <= 0\<close> only after it has charged a level, so for the single level (10, 1) and
  the quantity -1 both functions take -1 at the price 10 and return -10. (For the
  quantity 0 and for the empty sequence the result is 0: lemmas \<open>executeBuy_zero_qty\<close>,
  \<open>executeSell_zero_qty\<close>, \<open>executeBuy_empty\<close> and \<open>executeSell_empty\<close>.)
\<close>

theorem negative_qty_charges_first_level:
  "snd (executeBuy [\<lparr>price = 10, qty = 1\<rparr>] (- 1)) = - 10
   \<and> snd (executeSell [\<lparr>price = 10, qty = 1\<rparr>] (- 1)) = - 10"
  by (simp add: executeBuy_unfold executeSell_unfold)

text \<open>
  C6. The claim: aggregation is concatenation, and running the matcher on the levels of
  A then B yields exactly the same cost and revenue as on those of B then A. In the
  binary64 arithmetic of the code this fails for levels of equal price, which are
  summed in the order in which they were concatenated. With A holding the level
  (1, 0.1) and B the levels (1, 0.2) and (1, 0.3), quantities as doubles, and the
  quantity 10, the cost and the revenue are 0.6000000000000001 for A then B and 0.6 for
  B then A.
\<close>

theorem concatenation_order_changes_double_cost:
  "snd (executeBuy_fp round_double
          (snd (aggregate
             \<lparr>bids = [\<lparr>price = 1, qty = round_double (1 / 10)\<rparr>],
              asks = [\<lparr>price = 1, qty = round_double (1 / 10)\<rparr>]\<rparr>
             \<lparr>bids = [\<lparr>price = 1, qty = round_double (1 / 5)\<rparr>,
                      \<lparr>price = 1, qty = round_double (3 / 10)\<rparr>],
              asks = [\<lparr>price = 1, qty = round_double (1 / 5)\<rparr>,
                      \<lparr>price = 1, qty = round_double (3 / 10)\<rparr>]\<rparr>))
          10)
     = 1351079888211149 / 2251799813685248
   \<and> snd (executeBuy_fp round_double
          (snd (aggregate
             \<lparr>bids = [\<lparr>price = 1, qty = round_double (1 / 5)\<rparr>,
                      \<lparr>price = 1, qty = round_double (3 / 10)\<rparr>],
              asks = [\<lparr>price = 1, qty = round_double (1 / 5)\<rparr>,
                      \<lparr>price = 1, qty = round_double (3 / 10)\<rparr>]\<rparr>
             \<lparr>bids = [\<lparr>price = 1, qty = round_double (1 / 10)\<rparr>],
              asks = [\<lparr>price = 1, qty = round_double (1 / 10)\<rparr>]\<rparr>))
          10)
     = 5404319552844595 / 9007199254740992
   \<and> snd (executeSell_fp round_double
          (fst (aggregate
             \<lparr>bids = [\<lparr>price = 1, qty = round_double (1 / 10)\<rparr>],
              asks = [\<lparr>price = 1, qty = round_double (1 / 10)\<rparr>]\<rparr>
             \<lparr>bids = [\<lparr>price = 1, qty = round_double (1 / 5)\<rparr>,
                      \<lparr>price = 1, qty = round_double (3 / 10)\<rparr>],
              asks = [\<lparr>price = 1, qty = round_double (1 / 5)\<rparr>,
                      \<lparr>price = 1, qty = round_double (3 / 10)\<rparr>]\<rparr>))
          10)
     = 1351079888211149 / 2251799813685248
   \<and> snd (executeSell_fp round_double
          (fst (aggregate
             \<lparr>bids = [\<lparr>price = 1, qty = round_double (1 / 5)\<rparr>,
                      \<lparr>price = 1, qty = round_double (3 / 10)\<rparr>],
              asks = [\<lparr>price = 1, qty = round_double (1 / 5)\<rparr>,
                      \<lparr>price = 1, qty = round_double (3 / 10)\<rparr>]\<rparr>
             \<lparr>bids = [\<lparr>price = 1, qty = round_double (1 / 10)\<rparr>],
              asks = [\<lparr>price = 1, qty = round_double (1 / 10)\<rparr>]\<rparr>))
          10)
     = 5404319552844595 / 9007199254740992
   \<and> snd (executeBuy_fp round_double
          (snd (aggregate
             \<lparr>bids = [], asks = [\<lparr>price = 1, qty = round_double (1 / 10)\<rparr>]\<rparr>
             \<lparr>bids = [], asks = [\<lparr>price = 1, qty = round_double (1 / 5)\<rparr>,
                                 \<lparr>price = 1, qty = round_double (3 / 10)\<rparr>]\<rparr>))
          10)
     \<noteq> snd (executeBuy_fp round_double
          (snd (aggregate
             \<lparr>bids = [], asks = [\<lparr>price = 1, qty = round_double (1 / 5)\<rparr>,
                                 \<lparr>price = 1, qty = round_double (3 / 10)\<rparr>]\<rparr>
             \<lparr>bids = [], asks = [\<lparr>price = 1, qty = round_double (1 / 10)\<rparr>]\<rparr>))
          10)"
  apply (simp only: round_double_tenths)
  apply (simp add: fp_eval)
  done

text \<open>
  C6 as amended. Aggregation is concatenation and keeps every level with its
  multiplicity. When no two levels of a pool have the same price, the matcher returns
  exactly the same vector and the same cost (revenue) for A then B as for B then A,
  whatever the rounding of the arithmetic, and that vector is the only arrangement of
  the pool that is sorted by price. When levels share a price and no level has a
  negative quantity, the cost and the revenue for the two orders are equal if no
  operation rounds (the matcher with the identity as rounding is the exact matcher),
  and so are the costs of any two arrangements of the pool that are sorted by price.
\<close>

theorem aggregation_order_irrelevant:
  "aggregate A B = (bids A @ bids B, asks A @ asks B)
   \<and> mset (fst (aggregate A B)) = mset (bids A) + mset (bids B)
   \<and> mset (snd (aggregate A B)) = mset (asks A) + mset (asks B)
   \<and> (distinct (map price (asks A @ asks B)) \<longrightarrow>
        executeBuy_fp rnd (snd (aggregate A B)) q = executeBuy_fp rnd (snd (aggregate B A)) q)
   \<and> (distinct (map price (bids A @ bids B)) \<longrightarrow>
        executeSell_fp rnd (fst (aggregate A B)) q = executeSell_fp rnd (fst (aggregate B A)) q)
   \<and> (distinct (map price (asks A @ asks B)) \<and> sorted (map price l)
        \<and> mset l = mset (snd (aggregate A B)) \<longrightarrow>
        l = fst (executeBuy_fp rnd (snd (aggregate A B)) q))
   \<and> executeBuy_fp (\<lambda>x. x) (snd (aggregate A B)) q = executeBuy (snd (aggregate A B)) q
   \<and> executeSell_fp (\<lambda>x. x) (fst (aggregate A B)) q = executeSell (fst (aggregate A B)) q
   \<and> (list_all (\<lambda>a. 0 \<le> qty a) (asks A @ asks B @ bids A @ bids B) \<longrightarrow>
        snd (executeBuy (snd (aggregate A B)) q) = snd (executeBuy (snd (aggregate B A)) q)
      \<and> snd (executeSell (fst (aggregate A B)) q) = snd (executeSell (fst (aggregate B A)) q)
      \<and> (sorted (map price l1) \<and> mset l1 = mset (snd (aggregate A B))
          \<and> sorted (map price l2) \<and> mset l2 = mset (snd (aggregate B A))
          \<longrightarrow> fst (buy_loop l1 q 0) = fst (buy_loop l2 q 0)))"
proof (intro conjI impI)
  show "aggregate A B = (bids A @ bids B, asks A @ asks B)" by (simp add: aggregate_def)
  show "mset (fst (aggregate A B)) = mset (bids A) + mset (bids B)" by (simp add: aggregate_def)
  show "mset (snd (aggregate A B)) = mset (asks A) + mset (asks B)" by (simp add: aggregate_def)
  show "executeBuy_fp (\<lambda>x. x) (snd (aggregate A B)) q = executeBuy (snd (aggregate A B)) q"
    by (rule executeBuy_fp_exact)
  show "executeSell_fp (\<lambda>x. x) (fst (aggregate A B)) q = executeSell (fst (aggregate A B)) q"
    by (rule executeSell_fp_exact)
next
  assume "distinct (map price (asks A @ asks B))"
  then show "executeBuy_fp rnd (snd (aggregate A B)) q = executeBuy_fp rnd (snd (aggregate B A)) q"
    using executeBuy_fp_append_commute[of "asks A" "asks B" rnd q] by (simp add: aggregate_def)
next
  assume "distinct (map price (bids A @ bids B))"
  then show "executeSell_fp rnd (fst (aggregate A B)) q = executeSell_fp rnd (fst (aggregate B A)) q"
    using executeSell_fp_append_commute[of "bids A" "bids B" rnd q] by (simp add: aggregate_def)
next
  assume "distinct (map price (asks A @ asks B)) \<and> sorted (map price l)
        \<and> mset l = mset (snd (aggregate A B))"
  then have "l = sort_key price (asks A @ asks B)"
    by (intro sort_key_distinct_unique) (simp_all add: aggregate_def)
  then show "l = fst (executeBuy_fp rnd (snd (aggregate A B)) q)"
    by (simp add: executeBuy_fp_def aggregate_def Let_def)
next
  assume "list_all (\<lambda>a. 0 \<le> qty a) (asks A @ asks B @ bids A @ bids B)"
  then have nn: "\<forall>a\<in>set (asks A) \<union> set (asks B). 0 \<le> qty a"
    "\<forall>a\<in>set (bids A) \<union> set (bids B). 0 \<le> qty a"
    by (auto simp: list_all_iff)
  show "snd (executeBuy (snd (aggregate A B)) q) = snd (executeBuy (snd (aggregate B A)) q)"
    using exact_append_commute(1)[OF nn(1), of q] by (simp add: aggregate_def)
  show "snd (executeSell (fst (aggregate A B)) q) = snd (executeSell (fst (aggregate B A)) q)"
    using exact_append_commute(2)[OF nn(2), of q] by (simp add: aggregate_def)
  assume "sorted (map price l1) \<and> mset l1 = mset (snd (aggregate A B))
          \<and> sorted (map price l2) \<and> mset l2 = mset (snd (aggregate B A))"
  then have s: "sorted (map price l1)" "mset l1 = mset (asks A @ asks B)"
    "sorted (map price l2)" "mset l2 = mset (asks A @ asks B)"
    by (simp_all add: aggregate_def)
  have "\<forall>a\<in>set (asks A @ asks B). 0 \<le> qty a" using nn(1) by simp
  then show "fst (buy_loop l1 q 0) = fst (buy_loop l2 q 0)"
    using s by (rule exact_any_sorted)
qed

theorem aggregation_order_irrelevant_witness:
  "distinct (map price [\<lparr>price = 50000, qty = round_double (1/10)\<rparr>,
                        \<lparr>price = 50010, qty = round_double (1/5)\<rparr>,
                        \<lparr>price = 49990, qty = round_double (3/10)\<rparr>])
   \<and> snd (executeBuy_fp round_double
            [\<lparr>price = 50000, qty = round_double (1/10)\<rparr>,
             \<lparr>price = 50010, qty = round_double (1/5)\<rparr>,
             \<lparr>price = 49990, qty = round_double (3/10)\<rparr>] (1/2)) = 24998
   \<and> snd (executeBuy_fp round_double
            [\<lparr>price = 50010, qty = round_double (1/5)\<rparr>,
             \<lparr>price = 49990, qty = round_double (3/10)\<rparr>,
             \<lparr>price = 50000, qty = round_double (1/10)\<rparr>] (1/2)) = 24998
   \<and> fst (executeBuy_fp round_double
            [\<lparr>price = 50000, qty = round_double (1/10)\<rparr>,
             \<lparr>price = 50010, qty = round_double (1/5)\<rparr>,
             \<lparr>price = 49990, qty = round_double (3/10)\<rparr>] (1/2))
       = [\<lparr>price = 49990, qty = round_double (3/10)\<rparr>,
          \<lparr>price = 50000, qty = round_double (1/10)\<rparr>,
          \<lparr>price = 50010, qty = round_double (1/5)\<rparr>]
   \<and> distinct (map price [\<lparr>price = 90, qty = 5\<rparr>, \<lparr>price = 91, qty = 2\<rparr>])
   \<and> snd (executeSell_fp round_double [\<lparr>price = 90, qty = 5\<rparr>, \<lparr>price = 91, qty = 2\<rparr>] (1/2))
       = snd (executeSell_fp round_double [\<lparr>price = 91, qty = 2\<rparr>, \<lparr>price = 90, qty = 5\<rparr>] (1/2))
   \<and> list_all (\<lambda>a. 0 \<le> qty a)
        [\<lparr>price = 100, qty = 1\<rparr>, \<lparr>price = 100, qty = 3\<rparr>,
         \<lparr>price = 90, qty = 5\<rparr>, \<lparr>price = 90, qty = 2\<rparr>]
   \<and> snd (executeBuy [\<lparr>price = 100, qty = 1\<rparr>, \<lparr>price = 100, qty = 3\<rparr>] 2) = 200
   \<and> snd (executeBuy [\<lparr>price = 100, qty = 3\<rparr>, \<lparr>price = 100, qty = 1\<rparr>] 2) = 200
   \<and> snd (executeSell [\<lparr>price = 90, qty = 5\<rparr>, \<lparr>price = 90, qty = 2\<rparr>] 2) = 180
   \<and> snd (executeSell [\<lparr>price = 90, qty = 2\<rparr>, \<lparr>price = 90, qty = 5\<rparr>] 2) = 180
   \<and> sorted (map price [\<lparr>price = 100, qty = 1\<rparr>, \<lparr>price = 100, qty = 3\<rparr>])
   \<and> sorted (map price [\<lparr>price = 100, qty = 3\<rparr>, \<lparr>price = 100, qty = 1\<rparr>])
   \<and> mset [\<lparr>price = 100, qty = 1\<rparr>, \<lparr>price = 100, qty = 3\<rparr>]
       = mset [\<lparr>price = 100, qty = 3\<rparr>, \<lparr>price = 100, qty = 1\<rparr>]
   \<and> fst (buy_loop [\<lparr>price = 100, qty = 1\<rparr>, \<lparr>price = 100, qty = 3\<rparr>] 2 0)
       = fst (buy_loop [\<lparr>price = 100, qty = 3\<rparr>, \<lparr>price = 100, qty = 1\<rparr>] 2 0)"
  using aggregation_order_irrelevant
          [where A = "\<lparr>bids = [\<lparr>price = 90, qty = 5\<rparr>],
                       asks = [\<lparr>price = 50000, qty = round_double (1/10)\<rparr>]\<rparr>"
             and B = "\<lparr>bids = [\<lparr>price = 91, qty = 2\<rparr>],
                       asks = [\<lparr>price = 50010, qty = round_double (1/5)\<rparr>,
                               \<lparr>price = 49990, qty = round_double (3/10)\<rparr>]\<rparr>"
             and rnd = round_double and q = "1/2"
             and l = "[\<lparr>price = 49990, qty = round_double (3/10)\<rparr>,
                       \<lparr>price = 50000, qty = round_double (1/10)\<rparr>,
                       \<lparr>price = 50010, qty = round_double (1/5)\<rparr>]"]
        aggregation_order_irrelevant
          [where A = "\<lparr>bids = [\<lparr>price = 90, qty = 5\<rparr>], asks = [\<lparr>price = 100, qty = 1\<rparr>]\<rparr>"
             and B = "\<lparr>bids = [\<lparr>price = 90, qty = 2\<rparr>], asks = [\<lparr>price = 100, qty = 3\<rparr>]\<rparr>"
             and rnd = round_double and q = 2
             and ?l1.0 = "[\<lparr>price = 100, qty = 1\<rparr>, \<lparr>price = 100, qty = 3\<rparr>]"
             and ?l2.0 = "[\<lparr>price = 100, qty = 3\<rparr>, \<lparr>price = 100, qty = 1\<rparr>]"]
  apply (simp only: round_double_tenths)
  apply (simp add: fp_eval executeBuy_unfold executeSell_unfold)
  done

text \<open>
  C7. For every limiter, \<^verbatim>\<open>allow\<close> returns true and stores the current time exactly when
  at least the cooldown of 2 seconds has passed since the stored time (and its
  compare-and-swap finds the value it loaded), and returns false without a change of
  state otherwise. When a call is granted, a second call less than a cooldown later is
  denied and leaves the state as it is, and a third call a cooldown or more after the
  first is granted again; two calls less than a cooldown apart are never both granted.
  When several callers interleave on one limiter at the load and at the
  compare-and-swap, any two callers that are granted have clock readings at least a
  cooldown apart, so at most one caller per window sees true, and the stored time
  changes only in the step of a caller that is granted. A caller that runs alone in the
  interleaved model behaves as the sequential function.
\<close>

theorem rate_limiter_one_grant_per_window:
  "allow now rl = (if cooldown_ns \<le> now - lastCallNs rl
                   then (True, rl\<lparr>lastCallNs := now\<rparr>) else (False, rl))
   \<and> cooldown_ns = 2 * 10 ^ 9
   \<and> (cooldown_ns \<le> t1 - lastCallNs rl \<and> t2 - t1 < cooldown_ns \<and> cooldown_ns \<le> t3 - t1 \<longrightarrow>
        (case allow t1 rl of (r1, rl1) \<Rightarrow>
           case allow t2 rl1 of (r2, rl2) \<Rightarrow>
             case allow t3 rl2 of (r3, rl3) \<Rightarrow>
               r1 \<and> \<not> r2 \<and> rl2 = rl1 \<and> r3 \<and> lastCallNs rl3 = t3))
   \<and> (\<bar>t2 - t1\<bar> < cooldown_ns \<longrightarrow>
        \<not> (fst (allow t1 rl) \<and> fst (allow t2 (snd (allow t1 rl)))))
   \<and> run [0, 0] (lastCallNs rl, callers [now]) =
        (lastCallNs (snd (allow now rl)), [\<lparr>now_ns = now, pc = Returned (fst (allow now rl))\<rparr>])
   \<and> (granted (run schedule (stored, callers nows)) i
        \<and> granted (run schedule (stored, callers nows)) j \<and> i \<noteq> j \<longrightarrow>
        cooldown_ns \<le> \<bar>nows ! i - nows ! j\<bar>)
   \<and> (fst (step k cfg) \<noteq> fst cfg \<longrightarrow>
        granted (step k cfg) k \<and> fst (step k cfg) = now_ns (snd cfg ! k))"
proof (intro conjI impI)
  show "allow now rl = (if cooldown_ns \<le> now - lastCallNs rl
                   then (True, rl\<lparr>lastCallNs := now\<rparr>) else (False, rl))"
    by (rule allow_eq)
next
  show "cooldown_ns = 2 * 10 ^ 9" by (simp add: cooldown_ns_def)
next
  assume "cooldown_ns \<le> t1 - lastCallNs rl \<and> t2 - t1 < cooldown_ns \<and> cooldown_ns \<le> t3 - t1"
  then show "case allow t1 rl of (r1, rl1) \<Rightarrow>
           case allow t2 rl1 of (r2, rl2) \<Rightarrow>
             case allow t3 rl2 of (r3, rl3) \<Rightarrow>
               r1 \<and> \<not> r2 \<and> rl2 = rl1 \<and> r3 \<and> lastCallNs rl3 = t3"
    by (simp add: allow_eq)
next
  assume "\<bar>t2 - t1\<bar> < cooldown_ns"
  then show "\<not> (fst (allow t1 rl) \<and> fst (allow t2 (snd (allow t1 rl))))"
    by (auto simp: allow_eq)
next
  show "run [0, 0] (lastCallNs rl, callers [now]) =
        (lastCallNs (snd (allow now rl)), [\<lparr>now_ns = now, pc = Returned (fst (allow now rl))\<rparr>])"
    by (rule run_solo)
next
  assume "granted (run schedule (stored, callers nows)) i
        \<and> granted (run schedule (stored, callers nows)) j \<and> i \<noteq> j"
  then show "cooldown_ns \<le> \<bar>nows ! i - nows ! j\<bar>"
    using granted_apart by blast
next
  assume "fst (step k cfg) \<noteq> fst cfg"
  then show "granted (step k cfg) k" and "fst (step k cfg) = now_ns (snd cfg ! k)"
    using step_changes_only_on_grant by blast+
qed

theorem rate_limiter_one_grant_per_window_witness:
  "cooldown_ns \<le> 5000000000 - lastCallNs \<lparr>lastCallNs = 0\<rparr>
   \<and> 6000000000 - 5000000000 < cooldown_ns \<and> cooldown_ns \<le> 7500000000 - 5000000000
   \<and> fst (allow 5000000000 \<lparr>lastCallNs = 0\<rparr>)
   \<and> \<not> fst (allow 6000000000 \<lparr>lastCallNs = 5000000000\<rparr>)
   \<and> fst (allow 7500000000 \<lparr>lastCallNs = 5000000000\<rparr>)
   \<and> granted (run [0, 1, 0, 1, 2, 2] (0, callers [5000000000, 5500000000, 8500000000])) 0
   \<and> \<not> granted (run [0, 1, 0, 1, 2, 2] (0, callers [5000000000, 5500000000, 8500000000])) 1
   \<and> granted (run [0, 1, 0, 1, 2, 2] (0, callers [5000000000, 5500000000, 8500000000])) 2
   \<and> cooldown_ns
       \<le> \<bar>[5000000000, 5500000000, 8500000000] ! 0 - [5000000000, 5500000000, 8500000000] ! 2\<bar>
   \<and> step 0 (0, [\<lparr>now_ns = 5000000000, pc = AtCas 0\<rparr>])
       = (5000000000, [\<lparr>now_ns = 5000000000, pc = Returned True\<rparr>])
   \<and> step 0 (7, [\<lparr>now_ns = 5000000000, pc = AtCas 0\<rparr>])
       = (7, [\<lparr>now_ns = 5000000000, pc = Returned False\<rparr>])"
  using rate_limiter_one_grant_per_window
          [of 5000000000 "\<lparr>lastCallNs = 0\<rparr>" 5000000000 6000000000 7500000000
              "[0, 1, 0, 1, 2, 2]" 0 "[5000000000, 5500000000, 8500000000]" 0 2
              0 "(0, [\<lparr>now_ns = 5000000000, pc = AtCas 0\<rparr>])"]
  by (simp add: allow_eq cooldown_ns_def run_def step_def callers_def granted_def
        compare_exchange_strong_def Let_def)

text \<open>
  C8. The claim: on denial by its limiter \<^verbatim>\<open>fetch\<close> returns an empty order book, and
  a transport or parse failure degrades to an empty book in the same way and is never
  fatal. The first part holds. The second does not: with the limiter granting the call
  and \<^verbatim>\<open>json::parse\<close> throwing, \<^verbatim>\<open>fetch\<close> returns no book, the exception leaves it,
  and \<^verbatim>\<open>main\<close> ends in \<^verbatim>\<open>std::terminate\<close>; the same happens when a price is not a
  number.
\<close>

theorem failed_fetch_is_fatal:
  "fst (coinbase_fetch stod_decimal 5000000000 (Inl ParseError) new_exchange) = Inl ParseError
   \<and> fst (coinbase_fetch stod_decimal 5000000000 (Inl ParseError) new_exchange)
       \<noteq> Inr \<lparr>bids = [], asks = []\<rparr>
   \<and> fst (gemini_fetch stod_decimal 5000000000
            (Inr (JObject [(''asks'', JArray []),
                           (''bids'', JArray [JObject [(''amount'', JString ''1''),
                                                       (''price'', JString ''n/a'')]])]))
            new_exchange) = Inl InvalidArgument
   \<and> main stod_decimal [''prog'']
        \<lparr>cb_now = 5000000000, cb_reply = Inl ParseError,
         gm_now = 5000000001, gm_reply = Inr JNull\<rparr> = Terminated ParseError"
  by (simp add: coinbase_fetch_def gemini_fetch_def fetch_book_def allow_eq cooldown_ns_def
        new_exchange_def and_then_def main_def gemini_level_def stod_decimal_def
        strip_sign_def is_space_def is_digit_def digits_value_def Let_def)

text \<open>
  C8 as amended. For both quote sources, \<^verbatim>\<open>fetch\<close> asks its limiter before any network
  call; on denial it returns an empty order book, makes no request and leaves its state
  as it is. When the limiter grants the call, the time is stored, one request is made,
  and no failure is recovered. \<^verbatim>\<open>fetch\<close> throws \<open>e\<close> exactly when \<^verbatim>\<open>json::parse\<close>
  throws \<open>e\<close>, or the access to \<^verbatim>\<open>bids\<close> or \<^verbatim>\<open>asks\<close> throws \<open>e\<close>, or, all
  earlier steps having succeeded, the reading of a level throws \<open>e\<close>; the reading of a
  level throws \<open>e\<close> exactly when its field access, its \<^verbatim>\<open>get<std::string>\<close> or its
  \<^verbatim>\<open>std::stod\<close> is the first step to throw, and it throws \<open>e\<close>. Otherwise \<^verbatim>\<open>fetch\<close>
  returns the levels read, in their order. \<^verbatim>\<open>main\<close> ends in \<^verbatim>\<open>std::terminate\<close> with
  \<open>e\<close> exactly when reading the quantity throws \<open>e\<close>, or the Coinbase fetch throws
  \<open>e\<close>, or the Coinbase fetch returns a book and the Gemini fetch throws \<open>e\<close>.
\<close>

theorem fetch_denied_is_empty_failure_escapes:
  "(\<not> fst (allow now (limiter ex)) \<longrightarrow>
      coinbase_fetch stod now reply ex = (Inr \<lparr>bids = [], asks = []\<rparr>, ex)
    \<and> gemini_fetch stod now reply ex = (Inr \<lparr>bids = [], asks = []\<rparr>, ex))
   \<and> coinbase_fetch stod now' reply' ex' = fetch_book (coinbase_level stod) now' reply' ex'
   \<and> gemini_fetch stod now' reply' ex' = fetch_book (gemini_level stod) now' reply' ex'
   \<and> (fst (allow now' (limiter ex')) \<longrightarrow>
        snd (fetch_book level now' reply' ex')
          = ex'\<lparr>limiter := \<lparr>lastCallNs = now'\<rparr>, requests := requests ex' + 1\<rparr>
      \<and> (fst (fetch_book level now' reply' ex') = Inl e \<longleftrightarrow>
           (reply' = Inl e
            \<or> (\<exists>j. reply' = Inr j \<and>
                 (json_at_key j ''bids'' = Inl e
                  \<or> (\<exists>jb. json_at_key j ''bids'' = Inr jb \<and>
                       (push_levels level (json_items jb) [] = Inl e
                        \<or> (\<exists>new_bids. push_levels level (json_items jb) [] = Inr new_bids \<and>
                             (json_at_key j ''asks'' = Inl e
                              \<or> (\<exists>ja. json_at_key j ''asks'' = Inr ja \<and>
                                   push_levels level (json_items ja) [] = Inl e)))))))))
      \<and> (fst (fetch_book level now' reply' ex') = Inr ob \<longleftrightarrow>
           (\<exists>j jb ja new_bids new_asks. reply' = Inr j
              \<and> json_at_key j ''bids'' = Inr jb
              \<and> push_levels level (json_items jb) [] = Inr new_bids
              \<and> json_at_key j ''asks'' = Inr ja
              \<and> push_levels level (json_items ja) [] = Inr new_asks
              \<and> ob = \<lparr>bids = new_bids, asks = new_asks\<rparr>)))
   \<and> (push_levels level bs acc = Inl e \<longleftrightarrow>
        (\<exists>pre b post lvs. bs = pre @ b # post \<and> map level pre = map Inr lvs \<and> level b = Inl e))
   \<and> (push_levels level bs acc = Inr r \<longleftrightarrow>
        (\<exists>lvs. map level bs = map Inr lvs \<and> r = acc @ lvs))
   \<and> (coinbase_level stod b = Inl e \<longleftrightarrow>
        (json_at_index b 0 = Inl e
         \<or> (\<exists>x. json_at_index b 0 = Inr x \<and>
              (json_get_string x = Inl e
               \<or> (\<exists>s0. x = JString s0 \<and>
                    (stod s0 = Inl e
                     \<or> (\<exists>p. stod s0 = Inr p \<and>
                          (json_at_index b 1 = Inl e
                           \<or> (\<exists>y. json_at_index b 1 = Inr y \<and>
                                (json_get_string y = Inl e
                                 \<or> (\<exists>s1. y = JString s1 \<and> stod s1 = Inl e)))))))))))
   \<and> (coinbase_level stod b = Inr lv \<longleftrightarrow>
        (\<exists>s0 s1 p v. json_at_index b 0 = Inr (JString s0) \<and> stod s0 = Inr p
           \<and> json_at_index b 1 = Inr (JString s1) \<and> stod s1 = Inr v
           \<and> lv = \<lparr>price = p, qty = v\<rparr>))
   \<and> (gemini_level stod b = Inl e \<longleftrightarrow>
        (json_at_key b ''price'' = Inl e
         \<or> (\<exists>x. json_at_key b ''price'' = Inr x \<and>
              (json_get_string x = Inl e
               \<or> (\<exists>s0. x = JString s0 \<and>
                    (stod s0 = Inl e
                     \<or> (\<exists>p. stod s0 = Inr p \<and>
                          (json_at_key b ''amount'' = Inl e
                           \<or> (\<exists>y. json_at_key b ''amount'' = Inr y \<and>
                                (json_get_string y = Inl e
                                 \<or> (\<exists>s1. y = JString s1 \<and> stod s1 = Inl e)))))))))))
   \<and> (gemini_level stod b = Inr lv \<longleftrightarrow>
        (\<exists>s0 s1 p v. json_at_key b ''price'' = Inr (JString s0) \<and> stod s0 = Inr p
           \<and> json_at_key b ''amount'' = Inr (JString s1) \<and> stod s1 = Inr v
           \<and> lv = \<lparr>price = p, qty = v\<rparr>))
   \<and> (main stod argv env = Terminated e \<longleftrightarrow>
        (let qa = (if length argv = 3 \<and> argv ! 1 = ''--qty'' then stod (argv ! 2) else Inr 10);
             cb = fst (coinbase_fetch stod (cb_now env) (cb_reply env) new_exchange);
             gm = fst (gemini_fetch stod (gm_now env) (gm_reply env) new_exchange)
         in qa = Inl e
            \<or> (\<exists>q. qa = Inr q) \<and> (cb = Inl e \<or> (\<exists>book. cb = Inr book) \<and> gm = Inl e)))"
proof (intro conjI impI)
  assume d: "\<not> fst (allow now (limiter ex))"
  show "coinbase_fetch stod now reply ex = (Inr \<lparr>bids = [], asks = []\<rparr>, ex)"
    using d by (simp add: coinbase_fetch_def fetch_book_denied)
  show "gemini_fetch stod now reply ex = (Inr \<lparr>bids = [], asks = []\<rparr>, ex)"
    using d by (simp add: gemini_fetch_def fetch_book_denied)
next
  show "coinbase_fetch stod now' reply' ex' = fetch_book (coinbase_level stod) now' reply' ex'"
    by (simp add: coinbase_fetch_def)
  show "gemini_fetch stod now' reply' ex' = fetch_book (gemini_level stod) now' reply' ex'"
    by (simp add: gemini_fetch_def)
next
  assume g: "fst (allow now' (limiter ex'))"
  show "snd (fetch_book level now' reply' ex')
          = ex'\<lparr>limiter := \<lparr>lastCallNs = now'\<rparr>, requests := requests ex' + 1\<rparr>"
    using g by (rule fetch_book_granted_state)
  show "fst (fetch_book level now' reply' ex') = Inl e \<longleftrightarrow>
           (reply' = Inl e
            \<or> (\<exists>j. reply' = Inr j \<and>
                 (json_at_key j ''bids'' = Inl e
                  \<or> (\<exists>jb. json_at_key j ''bids'' = Inr jb \<and>
                       (push_levels level (json_items jb) [] = Inl e
                        \<or> (\<exists>new_bids. push_levels level (json_items jb) [] = Inr new_bids \<and>
                             (json_at_key j ''asks'' = Inl e
                              \<or> (\<exists>ja. json_at_key j ''asks'' = Inr ja \<and>
                                   push_levels level (json_items ja) [] = Inl e))))))))"
    using g by (rule fetch_book_granted_Inl_iff)
  show "fst (fetch_book level now' reply' ex') = Inr ob \<longleftrightarrow>
           (\<exists>j jb ja new_bids new_asks. reply' = Inr j
              \<and> json_at_key j ''bids'' = Inr jb
              \<and> push_levels level (json_items jb) [] = Inr new_bids
              \<and> json_at_key j ''asks'' = Inr ja
              \<and> push_levels level (json_items ja) [] = Inr new_asks
              \<and> ob = \<lparr>bids = new_bids, asks = new_asks\<rparr>)"
    using g by (rule fetch_book_granted_Inr_iff)
next
  show "push_levels level bs acc = Inl e \<longleftrightarrow>
        (\<exists>pre b post lvs. bs = pre @ b # post \<and> map level pre = map Inr lvs \<and> level b = Inl e)"
    by (rule push_levels_Inl_iff)
  show "push_levels level bs acc = Inr r \<longleftrightarrow>
        (\<exists>lvs. map level bs = map Inr lvs \<and> r = acc @ lvs)"
    by (rule push_levels_Inr_iff)
qed (rule coinbase_level_Inl_iff coinbase_level_Inr_iff gemini_level_Inl_iff
        gemini_level_Inr_iff main_Terminated_iff)+

theorem fetch_denied_is_empty_failure_escapes_witness:
  "\<not> fst (allow 6000000000 (limiter \<lparr>limiter = \<lparr>lastCallNs = 5000000000\<rparr>, requests = 1\<rparr>))
   \<and> coinbase_fetch stod_decimal 6000000000 (Inr JNull)
         \<lparr>limiter = \<lparr>lastCallNs = 5000000000\<rparr>, requests = 1\<rparr>
       = (Inr \<lparr>bids = [], asks = []\<rparr>, \<lparr>limiter = \<lparr>lastCallNs = 5000000000\<rparr>, requests = 1\<rparr>)
   \<and> gemini_fetch stod_decimal 6000000000 (Inr JNull)
         \<lparr>limiter = \<lparr>lastCallNs = 5000000000\<rparr>, requests = 1\<rparr>
       = (Inr \<lparr>bids = [], asks = []\<rparr>, \<lparr>limiter = \<lparr>lastCallNs = 5000000000\<rparr>, requests = 1\<rparr>)
   \<and> fst (allow 5000000000 (limiter new_exchange))
   \<and> snd (fetch_book (gemini_level stod_decimal) 5000000000 (Inl ParseError) new_exchange)
       = \<lparr>limiter = \<lparr>lastCallNs = 5000000000\<rparr>, requests = 1\<rparr>
   \<and> fst (gemini_fetch stod_decimal 5000000000 (Inl ParseError) new_exchange) = Inl ParseError"
  using fetch_denied_is_empty_failure_escapes
          [where now = 6000000000
             and ex = "\<lparr>limiter = \<lparr>lastCallNs = 5000000000\<rparr>, requests = 1\<rparr>"
             and stod = stod_decimal and reply = "Inr JNull"
             and now' = 5000000000 and ex' = new_exchange and reply' = "Inl ParseError"
             and level = "gemini_level stod_decimal" and e = ParseError]
  by (simp add: allow_eq cooldown_ns_def new_exchange_def)

text \<open>
  C9. The claim: for every malformed value of \<^verbatim>\<open>--qty\<close> the program reports an
  "invalid quantity" diagnostic and exits non-zero, without propagating a generic parse
  error. For the value \<^verbatim>\<open>abc\<close> the run ends with the \<^verbatim>\<open>std::invalid_argument\<close> of
  \<^verbatim>\<open>std::stod\<close>, uncaught; for the value \<^verbatim>\<open>12abc\<close> the run reports the estimates for
  the quantity 12 and no diagnostic.
\<close>

theorem bad_qty_no_diagnostic:
  "main stod_decimal [''prog'', ''--qty'', ''abc'']
        \<lparr>cb_now = 5000000000, cb_reply = Inr JNull, gm_now = 5000000001, gm_reply = Inr JNull\<rparr>
       = Terminated InvalidArgument
   \<and> main stod_decimal [''prog'', ''--qty'', ''12abc'']
        \<lparr>cb_now = 5000000000, cb_reply = Inr JNull, gm_now = 5000000001, gm_reply = Inr JNull\<rparr>
       = Printed 12 0 0"
  by (simp add: main_def coinbase_fetch_def gemini_fetch_def fetch_book_def allow_eq
        cooldown_ns_def new_exchange_def and_then_def stod_decimal_def aggregate_def
        executeBuy_unfold executeSell_unfold strip_sign_def is_space_def is_digit_def
        digits_value_def Let_def)

text \<open>
  C9 as amended. For every value of \<^verbatim>\<open>--qty\<close> on which \<^verbatim>\<open>std::stod\<close> throws, \<^verbatim>\<open>main\<close>
  does not catch the exception: the run ends in \<^verbatim>\<open>std::terminate\<close> with that
  exception, before any fetch, with no report and no fall back to the default quantity.
\<close>

theorem bad_qty_escapes_as_exception:
  assumes "stod s = Inl e"
  shows "main stod [prog, ''--qty'', s] env = Terminated e"
  using assms by (rule main_qty_throws)

theorem bad_qty_escapes_as_exception_witness:
  "stod_decimal ''abc'' = Inl InvalidArgument
   \<and> main stod_decimal [''./a.out'', ''--qty'', ''abc'']
        \<lparr>cb_now = 5000000000, cb_reply = Inr JNull, gm_now = 5000000001, gm_reply = Inr JNull\<rparr>
       = Terminated InvalidArgument"
proof -
  have h: "stod_decimal ''abc'' = Inl InvalidArgument"
    by (simp add: stod_decimal_def strip_sign_def is_space_def is_digit_def Let_def)
  show ?thesis
    using h bad_qty_escapes_as_exception
              [of stod_decimal "''abc''" InvalidArgument "''./a.out''"
                  "\<lparr>cb_now = 5000000000, cb_reply = Inr JNull,
                    gm_now = 5000000001, gm_reply = Inr JNull\<rparr>"]
    by simp
qed

text \<open>
  C10. For every sequence and quantity, the vector that \<^verbatim>\<open>executeBuy\<close> or
  \<^verbatim>\<open>executeSell\<close> leaves behind holds the orders of the input, each as often as
  before and with the same price and quantity: the call only reorders the vector
  (ascending by price for a buy, descending for a sell), and the remaining quantity
  lives in the loop state alone.
\<close>

theorem executeBuy_executeSell_only_reorder:
  "mset (fst (executeBuy asks0 q)) = mset asks0
   \<and> mset (fst (executeSell bids0 q)) = mset bids0
   \<and> sorted (map price (fst (executeBuy asks0 q)))
   \<and> sorted (map (\<lambda>a. - price a) (fst (executeSell bids0 q)))"
  by (simp add: executeBuy_unfold executeSell_unfold)

end
